theory Spec2Isabelle
  imports Complex_Main "HOL-Library.Char_ord" "HOL-Library.List_Lexorder"
begin

section \<open>Python values shared by the model\<close>

text \<open>
  The functions of \<^verbatim>\<open>dannce/engine/run/data.py\<close> are modelled as HOL functions.
  Every exception the Python can raise in the modelled code is a value of \<open>error\<close>,
  and a fallible function returns \<open>error + 'a\<close> with \<open>Inl\<close> for the exception.
\<close>

datatype error =
  KeyError | IndexError | ValueError | AttributeError | UnboundLocalError | FileExistsError

subsection \<open>Decimal rendering and parsing of integers\<close>

definition digit_char :: "nat \<Rightarrow> char" where
  "digit_char d = ''0123456789'' ! d"

text \<open>\<^verbatim>\<open>str(n)\<close> for a non-negative Python integer.\<close>

fun str_nat :: "nat \<Rightarrow> string" where
  "str_nat n = (if n < 10 then [digit_char n] else str_nat (n div 10) @ [digit_char (n mod 10)])"

declare str_nat.simps [simp del]

text \<open>\<^verbatim>\<open>str(i)\<close> for a Python integer.\<close>

definition str_int :: "int \<Rightarrow> string" where
  "str_int i = (if i < 0 then CHR ''-'' # str_nat (nat (- i)) else str_nat (nat i))"

definition is_digit :: "char \<Rightarrow> bool" where
  "is_digit c = (c \<in> set ''0123456789'')"

definition digit_val :: "char \<Rightarrow> nat" where
  "digit_val c = of_char c - 48"

definition digits_val :: "string \<Rightarrow> nat" where
  "digits_val s = foldl (\<lambda>a c. 10 * a + digit_val c) 0 s"

text \<open>The ASCII white space that \<^verbatim>\<open>int()\<close> strips from both ends of its argument.\<close>

definition is_space :: "char \<Rightarrow> bool" where
  "is_space c = (c \<in> set [CHR '' '', CHR 0x09, CHR 0x0A, CHR 0x0B, CHR 0x0C, CHR 0x0D])"

definition py_strip :: "string \<Rightarrow> string" where
  "py_strip s = rev (dropWhile is_space (rev (dropWhile is_space s)))"

text \<open>
  \<^verbatim>\<open>int(s)\<close> on a string: white space is stripped, one sign is allowed, the rest must be
  a non-empty run of decimal digits, otherwise \<^verbatim>\<open>ValueError\<close>. (Digit grouping with
  underscores is left out: every argument below is a piece of \<^verbatim>\<open>split("_")\<close>.)
\<close>

definition py_int :: "string \<Rightarrow> error + int" where
  "py_int s =
     (case py_strip s of
        [] \<Rightarrow> Inl ValueError
      | c # r \<Rightarrow>
          if c = CHR ''-'' then
            (if r \<noteq> [] \<and> list_all is_digit r then Inr (- int (digits_val r)) else Inl ValueError)
          else if c = CHR ''+'' then
            (if r \<noteq> [] \<and> list_all is_digit r then Inr (int (digits_val r)) else Inl ValueError)
          else if list_all is_digit (c # r) then Inr (int (digits_val (c # r)))
          else Inl ValueError)"

text \<open>\<^verbatim>\<open>s.split(c)\<close> for a one-character separator.\<close>

fun split_on :: "char \<Rightarrow> string \<Rightarrow> string list" where
  "split_on c [] = [[]]"
| "split_on c (x # xs) =
     (if x = c then [] # split_on c xs
      else (case split_on c xs of [] \<Rightarrow> [[x]] | w # ws \<Rightarrow> (x # w) # ws))"

section \<open>Sample identifiers\<close>

text \<open>
  \<^verbatim>\<open>str(i) + "_" + str(frame)\<close>, as in \<^verbatim>\<open>_convert_rat7m_to_label3d\<close> (the experiment
  index \<open>i\<close> comes from \<^verbatim>\<open>enumerate\<close>, the frame from an integer array).
\<close>

definition sample_id :: "nat \<Rightarrow> int \<Rightarrow> string" where
  "sample_id i frame = str_nat i @ ''_'' @ str_int frame"

text \<open>
  The decomposition of \<^verbatim>\<open>make_rat7m\<close> and \<^verbatim>\<open>make_pair\<close>:
  \<^verbatim>\<open>e, sampleID = int(samp.split("_")[0]), samp.split("_")[1]\<close>.
  The tuple is evaluated left to right, so a bad experiment index raises before a missing
  second piece does.
\<close>

definition decode_sample :: "string \<Rightarrow> error + (int \<times> string)" where
  "decode_sample samp =
     (case py_int (hd (split_on CHR ''_'' samp)) of
        Inl err \<Rightarrow> Inl err
      | Inr e \<Rightarrow>
          (case split_on CHR ''_'' samp of
             _ # tok # _ \<Rightarrow> Inr (e, tok)
           | _ \<Rightarrow> Inl IndexError))"

text \<open>Putting the two parts together again, the way the identifier was built.\<close>

definition encode_parts :: "int \<Rightarrow> string \<Rightarrow> string" where
  "encode_parts e tok = str_int e @ ''_'' @ tok"

section \<open>Choice of the dataset preparer\<close>

text \<open>A value of the parameter dictionary, as far as \<^verbatim>\<open>set_dataset\<close> looks at it.\<close>

datatype pyval = PStr string | PInt int | PBool bool | PNone

datatype preparer = Make_rat7m | Make_pair | Make_dataset

text \<open>
  \<^verbatim>\<open>set_dataset\<close>. In the \<^verbatim>\<open>"rat7m+pair"\<close> branch the right-hand side
  \<^verbatim>\<open>{**spec_args, "merge_pair": True}\<close> reads the local \<open>spec_args\<close>, which has no value
  yet.
\<close>

definition set_dataset :: "(string \<rightharpoonup> pyval) \<Rightarrow> error + preparer" where
  "set_dataset params =
     (case params ''dataset'' of
        None \<Rightarrow> Inl KeyError
      | Some d \<Rightarrow>
          if d = PStr ''rat7m'' then Inr Make_rat7m
          else if d = PStr ''rat7m+pair'' then Inl UnboundLocalError
          else if d = PStr ''pair'' then Inr Make_pair
          else Inr Make_dataset)"

section \<open>The COM prediction dataset\<close>

text \<open>
  One entry of the annotation dictionary: the 2D data are not looked at here and are
  kept as an opaque value; \<open>frames\<close> is the per-camera frame index, a dictionary kept as
  an association list in insertion order.
\<close>

record 'd annot =
  data :: 'd
  frames :: "(string \<times> int) list"

text \<open>The loop "Zero any negative frames", for one entry.\<close>

definition zero_negative_frames :: "'d annot \<Rightarrow> 'd annot" where
  "zero_negative_frames a =
     a\<lparr>frames := map (\<lambda>(cam, f). (cam, if f < 0 then 0 else f)) (frames a)\<rparr>"

record 'd com_inference =
  ci_datadict :: "(string \<times> 'd annot) list"
  ci_partition :: "(string \<times> string list) list"

text \<open>
  \<^verbatim>\<open>make_dataset_com_inference\<close> after \<^verbatim>\<open>prepare_data\<close> has returned \<open>samples\<close> and
  \<open>datadict\<close> (keyed by the integer sample identifiers): the frames are zeroed in place,
  then the sample list and the dictionary are re-keyed with the experiment prefix.
\<close>

definition make_dataset_com_inference ::
  "int list \<Rightarrow> (int \<times> 'd annot) list \<Rightarrow> 'd com_inference" where
  "make_dataset_com_inference samples datadict =
     (let datadict1 = map (\<lambda>(key, a). (key, zero_negative_frames a)) datadict;
          samples1 = map (\<lambda>f. ''0_'' @ str_int f) samples;
          datadict2 = map (\<lambda>(key, a). (''0_'' @ str_int key, a)) datadict1
      in \<lparr>ci_datadict = datadict2, ci_partition = [(''valid_sampleIDs'', samples1)]\<rparr>)"

section \<open>Floating-point values and arrays\<close>

text \<open>
  A float is a real number or NaN; the operations of this section are exact on the
  numbers (no rounding, no infinities), every operation with a NaN operand gives NaN and
  every comparison with a NaN operand is false, as in numpy. Rounding is modelled where a
  statement depends on it, in the arithmetic of the COM augmentation.
\<close>

datatype fl = NaN | Num real

fun fl_add :: "fl \<Rightarrow> fl \<Rightarrow> fl" where
  "fl_add (Num a) (Num b) = Num (a + b)"
| "fl_add _ _ = NaN"

fun fl_sub :: "fl \<Rightarrow> fl \<Rightarrow> fl" where
  "fl_sub (Num a) (Num b) = Num (a - b)"
| "fl_sub _ _ = NaN"

fun fl_mul :: "fl \<Rightarrow> fl \<Rightarrow> fl" where
  "fl_mul (Num a) (Num b) = Num (a * b)"
| "fl_mul _ _ = NaN"

fun fl_half :: "fl \<Rightarrow> fl" where
  "fl_half (Num a) = Num (a / 2)"
| "fl_half NaN = NaN"

fun fl_sqrt :: "fl \<Rightarrow> fl" where
  "fl_sqrt (Num a) = (if a < 0 then NaN else Num (sqrt a))"
| "fl_sqrt NaN = NaN"

fun fl_le :: "fl \<Rightarrow> fl \<Rightarrow> bool" where
  "fl_le (Num a) (Num b) = (a \<le> b)"
| "fl_le _ _ = False"

fun fl_lt :: "fl \<Rightarrow> fl \<Rightarrow> bool" where
  "fl_lt (Num a) (Num b) = (a < b)"
| "fl_lt _ _ = False"

fun is_nan :: "fl \<Rightarrow> bool" where
  "is_nan NaN = True"
| "is_nan (Num a) = False"

text \<open>
  A COM is an array of shape \<open>[3]\<close>. A Pose3D is an array of shape \<open>[3, K]\<close>, held as
  the list of its \<open>K\<close> columns (one 3-vector per keypoint), so that concatenation along
  the last axis is list append.
\<close>

type_synonym vec3 = "fl \<times> fl \<times> fl"
type_synonym pose = "vec3 list"

fun vec_add :: "vec3 \<Rightarrow> vec3 \<Rightarrow> vec3" where
  "vec_add (x1, y1, z1) (x2, y2, z2) = (fl_add x1 x2, fl_add y1 y2, fl_add z1 z2)"

fun vec_sub :: "vec3 \<Rightarrow> vec3 \<Rightarrow> vec3" where
  "vec_sub (x1, y1, z1) (x2, y2, z2) = (fl_sub x1 x2, fl_sub y1 y2, fl_sub z1 z2)"

fun vec_sq :: "vec3 \<Rightarrow> vec3" where
  "vec_sq (x, y, z) = (fl_mul x x, fl_mul y y, fl_mul z z)"

fun vec_half :: "vec3 \<Rightarrow> vec3" where
  "vec_half (x, y, z) = (fl_half x, fl_half y, fl_half z)"

text \<open>\<^verbatim>\<open>np.sum\<close> of the three entries.\<close>

fun vec_sum :: "vec3 \<Rightarrow> fl" where
  "vec_sum (x, y, z) = fl_add (fl_add (fl_add (Num 0) x) y) z"

text \<open>\<^verbatim>\<open>np.isnan(a).all()\<close> for a COM and for a Pose3D.\<close>

fun vec_all_nan :: "vec3 \<Rightarrow> bool" where
  "vec_all_nan (x, y, z) = (is_nan x \<and> is_nan y \<and> is_nan z)"

definition isnan_all :: "pose \<Rightarrow> bool" where
  "isnan_all p = list_all vec_all_nan p"

section \<open>The social big-volume policy of \<^verbatim>\<open>make_dataset\<close>\<close>

text \<open>\<^verbatim>\<open>dist = np.sqrt(np.sum((anchor1 - anchor2) ** 2))\<close>\<close>

definition com_dist :: "vec3 \<Rightarrow> vec3 \<Rightarrow> fl" where
  "com_dist anchor1 anchor2 = fl_sqrt (vec_sum (vec_sq (vec_sub anchor1 anchor2)))"

definition partition_names :: "string list" where
  "partition_names = [''train_sampleIDs'', ''valid_sampleIDs'']"

text \<open>
  \<^verbatim>\<open>processing.mask_coords_outside_volume(lo, hi, pose3d, com)\<close> is not part of the
  sources at hand; it is the parameter \<open>msk\<close> of the model.
\<close>

type_synonym mask_fn = "real \<Rightarrow> real \<Rightarrow> pose \<Rightarrow> vec3 \<Rightarrow> pose"

text \<open>
  The inner loop \<^verbatim>\<open>for (vol1, vol2) in v\<close>. The state is the two new dictionaries and
  the list \<open>samps\<close>; a missing key raises \<^verbatim>\<open>KeyError\<close>.
\<close>

fun merge_pairs ::
  "mask_fn \<Rightarrow> real \<Rightarrow> real \<Rightarrow> (string \<rightharpoonup> vec3) \<Rightarrow> (string \<rightharpoonup> pose) \<Rightarrow>
   (string \<times> string) list \<Rightarrow>
   (string \<rightharpoonup> pose) \<times> (string \<rightharpoonup> vec3) \<times> string list \<Rightarrow>
   error + ((string \<rightharpoonup> pose) \<times> (string \<rightharpoonup> vec3) \<times> string list)" where
  "merge_pairs msk vmin vmax com3d_dict datadict_3d [] acc = Inr acc"
| "merge_pairs msk vmin vmax com3d_dict datadict_3d ((vol1, vol2) # v) (nd, nc, samps) =
     (case com3d_dict vol1 of None \<Rightarrow> Inl KeyError | Some anchor1 \<Rightarrow>
      case com3d_dict vol2 of None \<Rightarrow> Inl KeyError | Some anchor2 \<Rightarrow>
      case datadict_3d vol1 of None \<Rightarrow> Inl KeyError | Some pose3d1 \<Rightarrow>
      case datadict_3d vol2 of None \<Rightarrow> Inl KeyError | Some pose3d2 \<Rightarrow>
        if fl_le (com_dist anchor1 anchor2) (Num ((vmax - vmin) / 2)) then
          (let threshold = (vmax - vmin) / 2;
               new_com = vec_half (vec_add anchor1 anchor2);
               primary = (if fl_lt (fst anchor1) (fst anchor2) then pose3d1 else pose3d2);
               secondary = (if fl_lt (fst anchor1) (fst anchor2) then pose3d2 else pose3d1);
               new_pose3d = primary @ secondary
           in merge_pairs msk vmin vmax com3d_dict datadict_3d v
                (nd(vol1 \<mapsto> msk (vmin - threshold / 2) (vmax + threshold / 2) new_pose3d new_com),
                 nc(vol1 \<mapsto> new_com),
                 samps @ [vol1]))
        else merge_pairs msk vmin vmax com3d_dict datadict_3d v (nd, nc, samps))"

record big_volume_state =
  new_datadict3d :: "string \<rightharpoonup> pose"
  new_comdict3d :: "string \<rightharpoonup> vec3"
  new_partition :: "string \<rightharpoonup> string list"
  samples_acc :: "string list"

text \<open>
  The outer loop \<^verbatim>\<open>for i, (k, v) in enumerate(pairs.items())\<close>; \<open>i\<close> is the running
  index, and \<^verbatim>\<open>partition_names[i]\<close> raises \<^verbatim>\<open>IndexError\<close> from the third entry on.
\<close>

fun big_volume_loop ::
  "mask_fn \<Rightarrow> real \<Rightarrow> real \<Rightarrow> (string \<rightharpoonup> vec3) \<Rightarrow> (string \<rightharpoonup> pose) \<Rightarrow> nat \<Rightarrow>
   (string \<times> (string \<times> string) list) list \<Rightarrow> big_volume_state \<Rightarrow> error + big_volume_state" where
  "big_volume_loop msk vmin vmax com3d_dict datadict_3d i [] st = Inr st"
| "big_volume_loop msk vmin vmax com3d_dict datadict_3d i ((k, v) # rest) st =
     (case merge_pairs msk vmin vmax com3d_dict datadict_3d v
             (new_datadict3d st, new_comdict3d st, []) of
        Inl err \<Rightarrow> Inl err
      | Inr (nd, nc, samps) \<Rightarrow>
          if i < length partition_names then
            big_volume_loop msk vmin vmax com3d_dict datadict_3d (Suc i) rest
              \<lparr>new_datadict3d = nd, new_comdict3d = nc,
               new_partition = (new_partition st)(partition_names ! i \<mapsto> samps),
               samples_acc = samples_acc st @ samps\<rparr>
          else Inl IndexError)"

record big_volume_out =
  bv_datadict_3d :: "string \<rightharpoonup> pose"
  bv_com3d_dict :: "string \<rightharpoonup> vec3"
  bv_samples :: "string list"
  bv_partition :: "string \<rightharpoonup> string list"
  bv_n_channels_out :: int
  bv_vmin :: real
  bv_vmax :: real
  bv_is_social_dataset :: bool

text \<open>
  The block \<^verbatim>\<open>if params.get("social_big_volume", False):\<close> of \<^verbatim>\<open>make_dataset\<close>.
  \<open>pairs\<close> is \<^verbatim>\<open>None\<close> unless the dataset is social, and then \<^verbatim>\<open>pairs.items()\<close> raises;
  otherwise it is the dictionary of pair lists, in insertion order.
\<close>

definition social_big_volume ::
  "mask_fn \<Rightarrow> real \<Rightarrow> real \<Rightarrow> int \<Rightarrow> (string \<times> (string \<times> string) list) list option \<Rightarrow>
   (string \<rightharpoonup> vec3) \<Rightarrow> (string \<rightharpoonup> pose) \<Rightarrow> error + big_volume_out" where
  "social_big_volume msk vmin vmax n_channels_out pairs com3d_dict datadict_3d =
     (let threshold = (vmax - vmin) / 2 in
      case pairs of
        None \<Rightarrow> Inl AttributeError
      | Some ps \<Rightarrow>
          (case big_volume_loop msk vmin vmax com3d_dict datadict_3d 0 ps
                  \<lparr>new_datadict3d = Map.empty, new_comdict3d = Map.empty,
                   new_partition = Map.empty, samples_acc = []\<rparr> of
             Inl err \<Rightarrow> Inl err
           | Inr st \<Rightarrow>
               Inr \<lparr>bv_datadict_3d = new_datadict3d st,
                    bv_com3d_dict = new_comdict3d st,
                    bv_samples = sort (samples_acc st),
                    bv_partition = new_partition st,
                    bv_n_channels_out = n_channels_out * 2,
                    bv_vmin = vmin - threshold / 2,
                    bv_vmax = vmax + threshold / 2,
                    bv_is_social_dataset = False\<rparr>))"

text \<open>A msk that leaves the pose as it is, for the examples below that need some msk.\<close>

definition keep_all :: mask_fn where
  "keep_all lo hi pose3d com = pose3d"

text \<open>
  Whether the pair \<open>(vol1, vol2)\<close> passes the test \<^verbatim>\<open>dist <= threshold\<close>, and the COM
  stored for it if it does.
\<close>

definition close_pair :: "real \<Rightarrow> real \<Rightarrow> (string \<rightharpoonup> vec3) \<Rightarrow> string \<times> string \<Rightarrow> bool" where
  "close_pair vmin vmax com3d_dict p =
     (case (com3d_dict (fst p), com3d_dict (snd p)) of
        (Some anchor1, Some anchor2) \<Rightarrow> fl_le (com_dist anchor1 anchor2) (Num ((vmax - vmin) / 2))
      | _ \<Rightarrow> False)"

text \<open>
  Example data: three pairs of instances. The COMs of \<^verbatim>\<open>0_5\<close> and \<^verbatim>\<open>1_5\<close> are 5 apart, those
  of \<^verbatim>\<open>0_7\<close> and \<^verbatim>\<open>1_7\<close> are 10 apart, those of \<^verbatim>\<open>0_9\<close> and \<^verbatim>\<open>1_9\<close> are 500 apart.
\<close>

definition example_com3d :: "string \<rightharpoonup> vec3" where
  "example_com3d =
     [''0_5'' \<mapsto> (Num 0, Num 0, Num 0), ''1_5'' \<mapsto> (Num 3, Num 4, Num 0),
      ''0_7'' \<mapsto> (Num 10, Num 0, Num 0), ''1_7'' \<mapsto> (Num 4, Num 8, Num 0),
      ''0_9'' \<mapsto> (Num 0, Num 0, Num 0), ''1_9'' \<mapsto> (Num 300, Num 400, Num 0)]"

definition example_pose3d :: "string \<rightharpoonup> pose" where
  "example_pose3d =
     [''0_5'' \<mapsto> [(Num 1, Num 1, Num 1)], ''1_5'' \<mapsto> [(Num 2, Num 5, Num 1)],
      ''0_7'' \<mapsto> [(Num 11, Num 1, Num 1)], ''1_7'' \<mapsto> [(Num 5, Num 9, Num 1)],
      ''0_9'' \<mapsto> [(Num 1, Num 1, Num 1)], ''1_9'' \<mapsto> [(Num 301, Num 401, Num 1)]]"

definition example_pairs :: "(string \<times> (string \<times> string) list) list" where
  "example_pairs =
     [(''train_pairs'', [(''0_5'', ''1_5''), (''0_9'', ''1_9'')]),
      (''valid_pairs'', [(''0_7'', ''1_7'')])]"

text \<open>What the big-volume block returns on the example data, with extent \<open>[-60, 60]\<close>.\<close>

definition example_out :: big_volume_out where
  "example_out =
     \<lparr>bv_datadict_3d =
        [''0_5'' \<mapsto> [(Num 1, Num 1, Num 1), (Num 2, Num 5, Num 1)],
         ''0_7'' \<mapsto> [(Num 5, Num 9, Num 1), (Num 11, Num 1, Num 1)]],
      bv_com3d_dict =
        [''0_5'' \<mapsto> (Num (3 / 2), Num 2, Num 0), ''0_7'' \<mapsto> (Num 7, Num 4, Num 0)],
      bv_samples = [''0_5'', ''0_7''],
      bv_partition = [''train_sampleIDs'' \<mapsto> [''0_5''], ''valid_sampleIDs'' \<mapsto> [''0_7'']],
      bv_n_channels_out = 46, bv_vmin = - 90, bv_vmax = 90,
      bv_is_social_dataset = False\<rparr>"

section \<open>Poses of the PAIR dataset\<close>

text \<open>
  A keypoint is valid when none of its coordinates is NaN; a Pose3D is fully valid when
  every keypoint is, unset when \<^verbatim>\<open>np.isnan(pose).all()\<close> holds, and well-formed when it is
  one or the other.
\<close>

fun vec_valid :: "vec3 \<Rightarrow> bool" where
  "vec_valid (x, y, z) = (\<not> is_nan x \<and> \<not> is_nan y \<and> \<not> is_nan z)"

definition fully_valid :: "pose \<Rightarrow> bool" where
  "fully_valid p = list_all vec_valid p"

definition pose_ok :: "pose \<Rightarrow> bool" where
  "pose_ok p = (fully_valid p \<or> isnan_all p)"

definition pair_index :: "nat list" where
  "pair_index = [0, 1, 2, 3, 4, 5, 6, 7, 8, 9, 12, 13]"

text \<open>\<^verbatim>\<open>np.ones((3, n)) * np.nan\<close>, one frame of it.\<close>

definition nan_pose :: "nat \<Rightarrow> pose" where
  "nan_pose n = replicate n (NaN, NaN, NaN)"

text \<open>\<^verbatim>\<open>base[:, idx] = vals\<close> for an index list as long as \<open>vals\<close> has columns.\<close>

fun scatter :: "pose \<Rightarrow> nat list \<Rightarrow> pose \<Rightarrow> pose" where
  "scatter base (i # idx) (v # vals) = scatter (base[i := v]) idx vals"
| "scatter base _ _ = base"

text \<open>
  The \<^verbatim>\<open>merge_pair\<close> branch of \<^verbatim>\<open>_convert_pair_to_label3d\<close>, for one frame of the array:
  \<^verbatim>\<open>pose3d1_r7m = np.ones((*pose3d1.shape[:2], 20)) * np.nan\<close>, then
  \<^verbatim>\<open>pose3d1_r7m[:, :, pair_index] = pose3d1\<close>. The assignment needs 12 keypoints on the
  right, or a single one (which numpy broadcasts to all 12), and raises otherwise.
\<close>

definition pair_to_r7m :: "pose \<Rightarrow> error + pose" where
  "pair_to_r7m pose3d =
     (if length pose3d = length pair_index then Inr (scatter (nan_pose 20) pair_index pose3d)
      else if length pose3d = 1 then
        Inr (scatter (nan_pose 20) pair_index (replicate (length pair_index) (hd pose3d)))
      else Inl ValueError)"

text \<open>The pose that \<^verbatim>\<open>_convert_pair_to_label3d\<close> stores for a frame read as \<open>pose3d\<close>.\<close>

definition convert_pair_pose :: "bool \<Rightarrow> pose \<Rightarrow> error + pose" where
  "convert_pair_pose merge_pair pose3d = (if merge_pair then pair_to_r7m pose3d else Inr pose3d)"

text \<open>Example data: a fully valid pose of 12 keypoints, and what is stored for it.\<close>

definition example_pair_pose :: pose where
  "example_pair_pose =
     [(Num 0, Num 0, Num 1), (Num 1, Num 0, Num 1), (Num 2, Num 0, Num 1), (Num 3, Num 0, Num 1),
      (Num 4, Num 0, Num 1), (Num 5, Num 0, Num 1), (Num 6, Num 0, Num 1), (Num 7, Num 0, Num 1),
      (Num 8, Num 0, Num 1), (Num 9, Num 0, Num 1), (Num 10, Num 0, Num 1), (Num 11, Num 0, Num 1)]"

definition example_r7m_pose :: pose where
  "example_r7m_pose =
     [(Num 0, Num 0, Num 1), (Num 1, Num 0, Num 1), (Num 2, Num 0, Num 1), (Num 3, Num 0, Num 1),
      (Num 4, Num 0, Num 1), (Num 5, Num 0, Num 1), (Num 6, Num 0, Num 1), (Num 7, Num 0, Num 1),
      (Num 8, Num 0, Num 1), (Num 9, Num 0, Num 1), (NaN, NaN, NaN), (NaN, NaN, NaN),
      (Num 10, Num 0, Num 1), (Num 11, Num 0, Num 1), (NaN, NaN, NaN), (NaN, NaN, NaN),
      (NaN, NaN, NaN), (NaN, NaN, NaN), (NaN, NaN, NaN), (NaN, NaN, NaN)]"

section \<open>The partitions of \<^verbatim>\<open>make_pair\<close> and \<^verbatim>\<open>make_rat7m\<close>\<close>

text \<open>
  The sample list that \<^verbatim>\<open>_convert_pair_to_label3d\<close> builds. Each candidate recording is
  given by the frames that \<^verbatim>\<open>np.random.choice\<close> drew for it, or \<open>None\<close> when it has no good
  frame and is skipped (\<^verbatim>\<open>continue\<close>, before \<^verbatim>\<open>count += 2\<close>). The list \<open>samples\<close> is
  extended in place: first the identifiers of animal 1, then those of animal 2.
\<close>

fun convert_pair_samples :: "nat \<Rightarrow> int list option list \<Rightarrow> string list \<Rightarrow> string list" where
  "convert_pair_samples count [] samples = samples"
| "convert_pair_samples count (None # cands) samples = convert_pair_samples count cands samples"
| "convert_pair_samples count (Some drawn # cands) samples =
     convert_pair_samples (count + 2) cands
       (samples @ map (sample_id count) drawn @ map (sample_id (count + 1)) drawn)"

record pair_partition =
  pp_samples :: "string list"
  pp_train :: "string list"
  pp_valid :: "string list"

text \<open>
  \<^verbatim>\<open>make_pair\<close>: the train list is a sorted copy of the samples of the training
  experiments; the second conversion extends the same list, starting its count at
  \<^verbatim>\<open>len(exps_train) * 2\<close>; the valid list is
  \<^verbatim>\<open>sorted(list(set(samples) - set(partition["train_sampleIDs"])))\<close>.
\<close>

definition make_pair_partition ::
  "int list option list \<Rightarrow> int list option list \<Rightarrow> pair_partition" where
  "make_pair_partition cands_train cands_test =
     (let samples1 = convert_pair_samples 0 cands_train [];
          train = sort samples1;
          samples2 = convert_pair_samples (length cands_train * 2) cands_test samples1;
          valid = sort (remdups (filter (\<lambda>s. s \<notin> set train) samples2))
      in \<lparr>pp_samples = samples2, pp_train = train, pp_valid = valid\<rparr>)"

text \<open>
  \<^verbatim>\<open>np.random.choice(a, size)\<close>: \<open>n_draws\<close> draws with replacement; \<open>pick i\<close> is the raw
  \<open>i\<close>-th draw of the generator, reduced to an index of \<open>a\<close>. An empty \<open>a\<close> raises.
\<close>

definition random_choice :: "(nat \<Rightarrow> nat) \<Rightarrow> 'a list \<Rightarrow> nat \<Rightarrow> error + 'a list" where
  "random_choice pick a n_draws =
     (if a = [] \<and> 0 < n_draws then Inl ValueError
      else Inr (map (\<lambda>i. a ! (pick i mod length a)) [0..<n_draws]))"

text \<open>
  The partition of \<^verbatim>\<open>make_rat7m\<close>: \<open>train\<close> and \<open>valid\<close> are the lists returned by
  \<^verbatim>\<open>processing.make_data_splits\<close> (not part of the sources at hand); with \<^verbatim>\<open>merge_pair\<close>
  the train list is replaced by 2000 draws from it.
\<close>

definition rat7m_partition ::
  "(nat \<Rightarrow> nat) \<Rightarrow> bool \<Rightarrow> string list \<Rightarrow> string list \<Rightarrow> error + (string list \<times> string list)" where
  "rat7m_partition pick merge_pair train valid =
     (if merge_pair then
        (case random_choice pick train 2000 of
           Inl err \<Rightarrow> Inl err
         | Inr chosen \<Rightarrow> Inr (chosen, valid))
      else Inr (train, valid))"

text \<open>Example data: 2001 train samples of experiment 0 and one valid sample.\<close>

definition example_rat7m_train :: "string list" where
  "example_rat7m_train = map (\<lambda>n. sample_id 0 (int n)) [0..<2001]"

definition example_rat7m_valid :: "string list" where
  "example_rat7m_valid = [sample_id 1 0]"

section \<open>COM augmentation\<close>

text \<open>\<^verbatim>\<open>sample + "-comaug{}".format(iter)\<close>\<close>

definition comaug_tag :: "string \<Rightarrow> nat \<Rightarrow> string" where
  "comaug_tag sample iter = sample @ ''-comaug'' @ str_nat iter"

text \<open>
  The arithmetic of the augmentation is done in double precision: every operation returns
  the rounding \<open>rd\<close> of its exact result, where \<open>rd\<close> maps a real number to the double that
  stands for it. The radius is a Python number, converted to a double where it meets an
  array.

  \<^verbatim>\<open>com_aug = perturb_radius * 2 * np.random.rand(len(com3d_new)) - perturb_radius\<close>,
  for one of the numbers \<open>u\<close> drawn by \<^verbatim>\<open>np.random.rand\<close>.
\<close>

definition com_aug :: "(real \<Rightarrow> real) \<Rightarrow> real \<Rightarrow> real \<Rightarrow> real" where
  "com_aug rd perturb_radius u = rd (rd (rd (perturb_radius * 2) * u) - rd perturb_radius)"

text \<open>\<^verbatim>\<open>com3d_new += com_aug\<close>, for one coordinate.\<close>

fun fl_add_rd :: "(real \<Rightarrow> real) \<Rightarrow> fl \<Rightarrow> real \<Rightarrow> fl" where
  "fl_add_rd rd (Num a) b = Num (rd (a + b))"
| "fl_add_rd rd NaN b = NaN"

text \<open>The new COM; the triple holds the three numbers drawn by \<^verbatim>\<open>np.random.rand\<close>.\<close>

fun perturb_com :: "(real \<Rightarrow> real) \<Rightarrow> real \<Rightarrow> real \<times> real \<times> real \<Rightarrow> vec3 \<Rightarrow> vec3" where
  "perturb_com rd r (u1, u2, u3) (x, y, z) =
     (fl_add_rd rd x (com_aug rd r u1), fl_add_rd rd y (com_aug rd r u2),
      fl_add_rd rd z (com_aug rd r u3))"

text \<open>
  The rounding of IEEE 754 binary64, to nearest with ties to even: a number \<open>x\<close> with
  \<open>2 ^ e \<le> \<bar>x\<bar> < 2 ^ (e + 1)\<close> is rounded to a multiple of \<open>2 ^ (e - 52)\<close>, with \<open>e\<close> not
  below \<open>-1022\<close> (the subnormal numbers): \<open>exponent64 x\<close> is that \<open>e\<close> and \<open>quantum64 x\<close> that
  \<open>2 ^ (e - 52)\<close>. \<open>binade\<close> finds the exponent by halving or doubling, at most \<open>fuel\<close>
  times; 1100 steps cover the range of the doubles. There is no infinity: the value
  means nothing from \<open>2 ^ 1024\<close> on.
\<close>

definition round_half_even :: "real \<Rightarrow> int" where
  "round_half_even x =
     (if x - of_int \<lfloor>x\<rfloor> < 1 / 2 then \<lfloor>x\<rfloor>
      else if 1 / 2 < x - of_int \<lfloor>x\<rfloor> then \<lfloor>x\<rfloor> + 1
      else if even \<lfloor>x\<rfloor> then \<lfloor>x\<rfloor> else \<lfloor>x\<rfloor> + 1)"

fun binade :: "nat \<Rightarrow> real \<Rightarrow> int" where
  "binade 0 x = 0"
| "binade (Suc fuel) x =
     (if 2 \<le> x then binade fuel (x / 2) + 1
      else if x < 1 then binade fuel (x * 2) - 1
      else 0)"

definition exponent64 :: "real \<Rightarrow> int" where
  "exponent64 x = max (binade 1100 \<bar>x\<bar>) (- 1022)"

definition quantum64 :: "real \<Rightarrow> real" where
  "quantum64 x = 2 powi (exponent64 x - 52)"

definition rd64 :: "real \<Rightarrow> real" where
  "rd64 x = (if x = 0 then 0 else of_int (round_half_even (x / quantum64 x)) * quantum64 x)"

text \<open>
  The state of the two loops: the three dictionaries (mutated in place), the list of new
  identifiers, and how many numbers have been drawn from the generator \<open>rnd\<close>.
\<close>

record 'd aug_state =
  as_datadict :: "string \<rightharpoonup> 'd"
  as_datadict_3d :: "string \<rightharpoonup> pose"
  as_com3d_dict :: "string \<rightharpoonup> vec3"
  train_samples_new :: "string list"
  rng_pos :: nat

text \<open>The body of the inner loop of \<^verbatim>\<open>sample_COM_augmentation\<close>, for one sample.\<close>

definition augment_sample ::
  "(real \<Rightarrow> real) \<Rightarrow> (nat \<Rightarrow> real) \<Rightarrow> real \<Rightarrow> nat \<Rightarrow> string list \<Rightarrow> 'd aug_state \<Rightarrow> string \<Rightarrow>
   error + 'd aug_state" where
  "augment_sample rd rnd perturb_radius iter train_samples st sample =
     (if sample \<notin> set train_samples then Inr st
      else case as_datadict_3d st sample of
        None \<Rightarrow> Inl KeyError
      | Some pose3d \<Rightarrow>
          if isnan_all pose3d then Inr st
          else case as_com3d_dict st sample of
            None \<Rightarrow> Inl KeyError
          | Some com3d \<Rightarrow>
              (case as_datadict st sample of
                 None \<Rightarrow> Inl KeyError
               | Some d \<Rightarrow>
                   Inr \<lparr>as_datadict = (as_datadict st)(comaug_tag sample iter \<mapsto> d),
                        as_datadict_3d = (as_datadict_3d st)(comaug_tag sample iter \<mapsto> pose3d),
                        as_com3d_dict = (as_com3d_dict st)(comaug_tag sample iter \<mapsto>
                          perturb_com rd perturb_radius
                            (rnd (rng_pos st), rnd (rng_pos st + 1), rnd (rng_pos st + 2)) com3d),
                        train_samples_new = train_samples_new st @ [comaug_tag sample iter],
                        rng_pos = rng_pos st + 3\<rparr>))"

text \<open>\<^verbatim>\<open>for sample in pbar\<close>\<close>

fun aug_samples ::
  "(real \<Rightarrow> real) \<Rightarrow> (nat \<Rightarrow> real) \<Rightarrow> real \<Rightarrow> nat \<Rightarrow> string list \<Rightarrow> string list \<Rightarrow>
   'd aug_state \<Rightarrow> error + 'd aug_state" where
  "aug_samples rd rnd r iter train_samples [] st = Inr st"
| "aug_samples rd rnd r iter train_samples (sample # rest) st =
     (case augment_sample rd rnd r iter train_samples st sample of
        Inl err \<Rightarrow> Inl err
      | Inr st' \<Rightarrow> aug_samples rd rnd r iter train_samples rest st')"

text \<open>\<^verbatim>\<open>for iter in range(aug_iters)\<close>, over the list of the iteration numbers.\<close>

fun aug_iterations ::
  "(real \<Rightarrow> real) \<Rightarrow> (nat \<Rightarrow> real) \<Rightarrow> real \<Rightarrow> string list \<Rightarrow> nat list \<Rightarrow> 'd aug_state \<Rightarrow>
   error + 'd aug_state" where
  "aug_iterations rd rnd r train_samples [] st = Inr st"
| "aug_iterations rd rnd r train_samples (iter # iters) st =
     (case aug_samples rd rnd r iter train_samples train_samples st of
        Inl err \<Rightarrow> Inl err
      | Inr st' \<Rightarrow> aug_iterations rd rnd r train_samples iters st')"

record 'd aug_out =
  ao_samples :: "string list"
  ao_datadict :: "string \<rightharpoonup> 'd"
  ao_datadict_3d :: "string \<rightharpoonup> pose"
  ao_com3d_dict :: "string \<rightharpoonup> vec3"
  ao_train :: "string list"
  ao_valid :: "string list"

text \<open>
  \<^verbatim>\<open>sample_COM_augmentation\<close>. \<open>train\<close> and \<open>valid\<close> are the two lists of the partition;
  only its train entry is assigned at the end.
\<close>

definition sample_COM_augmentation ::
  "(real \<Rightarrow> real) \<Rightarrow> (nat \<Rightarrow> real) \<Rightarrow> (string \<rightharpoonup> 'd) \<Rightarrow> (string \<rightharpoonup> pose) \<Rightarrow>
   (string \<rightharpoonup> vec3) \<Rightarrow> string list \<Rightarrow> string list \<Rightarrow> real \<Rightarrow> nat \<Rightarrow> error + 'd aug_out" where
  "sample_COM_augmentation rd rnd datadict datadict_3d com3d_dict train valid perturb_radius
     aug_iters =
     (case aug_iterations rd rnd perturb_radius train [0..<aug_iters]
             \<lparr>as_datadict = datadict, as_datadict_3d = datadict_3d, as_com3d_dict = com3d_dict,
              train_samples_new = [], rng_pos = 0\<rparr> of
        Inl err \<Rightarrow> Inl err
      | Inr st \<Rightarrow>
          Inr \<lparr>ao_samples = sort (train @ train_samples_new st @ valid),
               ao_datadict = as_datadict st,
               ao_datadict_3d = as_datadict_3d st,
               ao_com3d_dict = as_com3d_dict st,
               ao_train = sort (train @ train_samples_new st),
               ao_valid = valid\<rparr>)"

text \<open>A sample counts as labeled when it has a Pose3D that is not entirely NaN.\<close>

definition labeled :: "(string \<rightharpoonup> pose) \<Rightarrow> string \<Rightarrow> bool" where
  "labeled datadict_3d sample =
     (case datadict_3d sample of None \<Rightarrow> False | Some pose3d \<Rightarrow> \<not> isnan_all pose3d)"

text \<open>
  The identifiers added in the iterations \<open>iters\<close>: in each iteration one for every
  occurrence of a labeled sample in \<open>train\<close>, in the order of the list.
\<close>

definition comaug_new :: "(string \<rightharpoonup> pose) \<Rightarrow> string list \<Rightarrow> nat list \<Rightarrow> string list" where
  "comaug_new datadict_3d train iters =
     concat (map (\<lambda>i. map (\<lambda>s. comaug_tag s i) (filter (labeled datadict_3d) train)) iters)"

text \<open>
  An identifier made of decimal digits, underscores and minus signs only, as every
  \<^verbatim>\<open>str(i) + "_" + str(frame)\<close> that the loaders of this file build.
\<close>

definition plain_id :: "string \<Rightarrow> bool" where
  "plain_id k = list_all (\<lambda>c. is_digit c \<or> c = CHR ''_'' \<or> c = CHR ''-'') k"

text \<open>
  Example data: two train samples, the second one unlabeled, and one valid sample; a
  generator that cycles through 0, 1/16, 2/16, 3/16; and what the augmentation returns in
  binary64 arithmetic for radius 20 and two iterations.
\<close>

definition example_rnd :: "nat \<Rightarrow> real" where
  "example_rnd n = real (n mod 4) / 16"

definition example_aug_datadict :: "string \<rightharpoonup> nat" where
  "example_aug_datadict = [''0_5'' \<mapsto> 5, ''0_6'' \<mapsto> 6, ''0_9'' \<mapsto> 9]"

definition example_aug_pose3d :: "string \<rightharpoonup> pose" where
  "example_aug_pose3d =
     [''0_5'' \<mapsto> [(Num 1, Num 2, Num 3)], ''0_6'' \<mapsto> [(NaN, NaN, NaN)],
      ''0_9'' \<mapsto> [(Num 7, Num 8, Num 9)]]"

definition example_aug_com3d :: "string \<rightharpoonup> vec3" where
  "example_aug_com3d =
     [''0_5'' \<mapsto> (Num 100, Num 200, Num 300), ''0_6'' \<mapsto> (Num 0, Num 0, Num 0),
      ''0_9'' \<mapsto> (Num 50, Num 50, Num 50)]"

definition example_aug_out :: "nat aug_out" where
  "example_aug_out =
     \<lparr>ao_samples = [''0_5'', ''0_5-comaug0'', ''0_5-comaug1'', ''0_6'', ''0_9''],
      ao_datadict = example_aug_datadict(''0_5-comaug0'' \<mapsto> 5, ''0_5-comaug1'' \<mapsto> 5),
      ao_datadict_3d = example_aug_pose3d(''0_5-comaug0'' \<mapsto> [(Num 1, Num 2, Num 3)],
        ''0_5-comaug1'' \<mapsto> [(Num 1, Num 2, Num 3)]),
      ao_com3d_dict = example_aug_com3d(''0_5-comaug0'' \<mapsto> (Num 80, Num (365 / 2), Num 285),
        ''0_5-comaug1'' \<mapsto> (Num (175 / 2), Num 180, Num (565 / 2))),
      ao_train = [''0_5'', ''0_5-comaug0'', ''0_5-comaug1'', ''0_6''],
      ao_valid = [''0_9'']\<rparr>"

text \<open>
  Example data with a repeated identifier in the train list, as \<^verbatim>\<open>np.random.choice\<close>
  leaves it, and what one iteration returns for it in binary64 arithmetic with radius 20:
  the first visit of \<^verbatim>\<open>0_3\<close> draws the numbers 0, 1/16, 2/16, the second one 3/16, 0, 1/16.
\<close>

definition example_dup_datadict :: "string \<rightharpoonup> nat" where
  "example_dup_datadict = [''0_3'' \<mapsto> 3]"

definition example_dup_pose3d :: "string \<rightharpoonup> pose" where
  "example_dup_pose3d = [''0_3'' \<mapsto> [(Num 1, Num 2, Num 3)]]"

definition example_dup_com3d :: "string \<rightharpoonup> vec3" where
  "example_dup_com3d = [''0_3'' \<mapsto> (Num 100, Num 200, Num 300)]"

definition example_dup_out :: "nat aug_out" where
  "example_dup_out =
     \<lparr>ao_samples = [''0_3'', ''0_3'', ''0_3-comaug0'', ''0_3-comaug0''],
      ao_datadict = example_dup_datadict(''0_3-comaug0'' \<mapsto> 3),
      ao_datadict_3d = example_dup_pose3d(''0_3-comaug0'' \<mapsto> [(Num 1, Num 2, Num 3)]),
      ao_com3d_dict = example_dup_com3d(''0_3-comaug0'' \<mapsto>
        (Num (175 / 2), Num 180, Num (565 / 2))),
      ao_train = [''0_3'', ''0_3'', ''0_3-comaug0'', ''0_3-comaug0''],
      ao_valid = []\<rparr>"

text \<open>
  Example data for the rounding of the sum: the radius is the double \<^verbatim>\<open>0.1\<close>, the first
  coordinate of the COM is the double \<^verbatim>\<open>1000.1\<close>, and every draw is 0.
\<close>

definition example_round_com3d :: "string \<rightharpoonup> vec3" where
  "example_round_com3d = [''0_3'' \<mapsto> (Num (rd64 (10001 / 10)), Num 0, Num 0)]"

definition example_round_out :: "nat aug_out" where
  "example_round_out =
     \<lparr>ao_samples = [''0_3'', ''0_3-comaug0''],
      ao_datadict = example_dup_datadict(''0_3-comaug0'' \<mapsto> 3),
      ao_datadict_3d = example_dup_pose3d(''0_3-comaug0'' \<mapsto> [(Num 1, Num 2, Num 3)]),
      ao_com3d_dict = example_round_com3d(''0_3-comaug0'' \<mapsto>
        (Num 1000, Num (- rd64 (1 / 10)), Num (- rd64 (1 / 10)))),
      ao_train = [''0_3'', ''0_3-comaug0''],
      ao_valid = []\<rparr>"

section \<open>The poses stored in the 3D-annotation mapping\<close>

text \<open>
  \<^verbatim>\<open>a[i]\<close> for an integer \<open>i\<close> on the first axis of an array: a negative index counts from
  the end, and an index out of range raises \<^verbatim>\<open>IndexError\<close>.
\<close>

definition np_index :: "'a list \<Rightarrow> int \<Rightarrow> error + 'a" where
  "np_index a i =
     (if 0 \<le> i \<and> i < int (length a) then Inr (a ! nat i)
      else if - int (length a) \<le> i \<and> i < 0 then Inr (a ! nat (i + int (length a)))
      else Inl IndexError)"

text \<open>
  \<^verbatim>\<open>_convert_rat7m_to_label3d\<close>, the loop \<^verbatim>\<open>for j, samp in enumerate(sampleIDs)\<close> with its
  assignment \<^verbatim>\<open>datadict_3d[samp] = data3d[j]\<close>. \<open>drawn\<close> holds the frame numbers of the
  identifiers, \<open>data3d\<close> the poses of the experiment \<open>i\<close>, one per frame, and \<open>j\<close> is the
  running index.
\<close>

fun store_rows ::
  "nat \<Rightarrow> pose list \<Rightarrow> nat \<Rightarrow> int list \<Rightarrow> (string \<rightharpoonup> pose) \<Rightarrow> error + (string \<rightharpoonup> pose)" where
  "store_rows i data3d j [] datadict_3d = Inr datadict_3d"
| "store_rows i data3d j (frame # drawn) datadict_3d =
     (if j < length data3d then
        store_rows i data3d (Suc j) drawn (datadict_3d(sample_id i frame \<mapsto> data3d ! j))
      else Inl IndexError)"

text \<open>
  The \<^verbatim>\<open>merge_pair\<close> branch of \<^verbatim>\<open>_convert_pair_to_label3d\<close> on the whole array, a list of
  frames. The frames of an array have the same number of keypoints, so the assignment
  raises for all of them or for none.
\<close>

fun convert_pair_array :: "bool \<Rightarrow> pose list \<Rightarrow> error + pose list" where
  "convert_pair_array merge_pair [] = Inr []"
| "convert_pair_array merge_pair (pose3d # rest) =
     (case convert_pair_pose merge_pair pose3d of
        Inl err \<Rightarrow> Inl err
      | Inr pose3d_r7m \<Rightarrow>
          (case convert_pair_array merge_pair rest of
             Inl err \<Rightarrow> Inl err
           | Inr rest_r7m \<Rightarrow> Inr (pose3d_r7m # rest_r7m)))"

text \<open>
  The loop \<^verbatim>\<open>for j, samp in enumerate(sampleIDs_an1)\<close> with its assignment
  \<^verbatim>\<open>datadict_3d[samp] = pose3d1[frames][j]\<close>, where \<open>drawn\<close> holds the frames chosen by
  \<^verbatim>\<open>np.random.choice\<close> and the identifier of a frame is \<^verbatim>\<open>str(count) + "_" + str(frame)\<close>.
  A frame out of range raises \<^verbatim>\<open>IndexError\<close>.
\<close>

fun store_frames ::
  "pose list \<Rightarrow> nat \<Rightarrow> int list \<Rightarrow> (string \<rightharpoonup> pose) \<Rightarrow> error + (string \<rightharpoonup> pose)" where
  "store_frames pose3d count [] datadict_3d = Inr datadict_3d"
| "store_frames pose3d count (frame # drawn) datadict_3d =
     (case np_index pose3d frame of
        Inl err \<Rightarrow> Inl err
      | Inr pose \<Rightarrow> store_frames pose3d count drawn (datadict_3d(sample_id count frame \<mapsto> pose)))"

text \<open>
  What the body of \<^verbatim>\<open>for can in candidates\<close> does to \<^verbatim>\<open>datadict_3d\<close>: the two arrays are
  converted, then the frames of animal 1 are stored under \<open>count\<close> and those of animal 2
  under \<open>count + 1\<close>.
\<close>

definition convert_pair_poses ::
  "bool \<Rightarrow> pose list \<Rightarrow> pose list \<Rightarrow> nat \<Rightarrow> int list \<Rightarrow> (string \<rightharpoonup> pose) \<Rightarrow>
   error + (string \<rightharpoonup> pose)" where
  "convert_pair_poses merge_pair pose3d1 pose3d2 count drawn datadict_3d =
     (case convert_pair_array merge_pair pose3d1 of
        Inl err \<Rightarrow> Inl err
      | Inr pose3d1_r7m \<Rightarrow>
          (case convert_pair_array merge_pair pose3d2 of
             Inl err \<Rightarrow> Inl err
           | Inr pose3d2_r7m \<Rightarrow>
               (case store_frames pose3d1_r7m count drawn datadict_3d of
                  Inl err \<Rightarrow> Inl err
                | Inr datadict_3d' \<Rightarrow> store_frames pose3d2_r7m (count + 1) drawn datadict_3d')))"

text \<open>
  Example data: a pair of instances 5 apart, the first one labeled and the second one
  unset; and two frames of a recording of the PAIR dataset, of which frame 1 is drawn.
\<close>

definition example_mixed_pose3d :: "string \<rightharpoonup> pose" where
  "example_mixed_pose3d = [''0_5'' \<mapsto> [(Num 1, Num 1, Num 1)], ''1_5'' \<mapsto> [(NaN, NaN, NaN)]]"

definition example_mixed_pairs :: "(string \<times> (string \<times> string) list) list" where
  "example_mixed_pairs = [(''train_pairs'', [(''0_5'', ''1_5'')])]"

definition example_pair_array :: "pose list" where
  "example_pair_array = [nan_pose 12, example_pair_pose]"

text \<open>
  What the big-volume block returns for the pair with extent \<open>[-60, 60]\<close>, whatever the
  mask is: the pose handed to the mask joins the labeled pose with the unset one.
\<close>

definition example_mixed_out :: "mask_fn \<Rightarrow> big_volume_out" where
  "example_mixed_out msk =
     \<lparr>bv_datadict_3d =
        [''0_5'' \<mapsto> msk (- 90) 90 [(Num 1, Num 1, Num 1), (NaN, NaN, NaN)]
                      (Num (3 / 2), Num 2, Num 0)],
      bv_com3d_dict = [''0_5'' \<mapsto> (Num (3 / 2), Num 2, Num 0)],
      bv_samples = [''0_5''],
      bv_partition = [''train_sampleIDs'' \<mapsto> [''0_5'']],
      bv_n_channels_out = 46, bv_vmin = - 90, bv_vmax = 90,
      bv_is_social_dataset = False\<rparr>"

text \<open>Two poses of one keypoint, as \<^verbatim>\<open>_convert_rat7m_to_label3d\<close> reads them.\<close>

definition example_rows :: "pose list" where
  "example_rows = [[(Num 1, Num 2, Num 3)], [(NaN, NaN, NaN)]]"

section \<open>Examination of the cached volumes\<close>

text \<open>
  A path is the list of its components, and the file system is the list of the paths
  that exist (directories and files alike; contents and sizes of files are never looked
  at by the code below, so they are not part of the state).
\<close>

type_synonym path = "string list"
type_synonym filesystem = "path list"

text \<open>\<^verbatim>\<open>os.listdir(p)\<close>: the names of the entries directly under \<open>p\<close>.\<close>

definition listdir :: "filesystem \<Rightarrow> path \<Rightarrow> string list" where
  "listdir fs p = map last (filter (\<lambda>q. q \<noteq> [] \<and> butlast q = p) fs)"

text \<open>
  \<^verbatim>\<open>os.makedirs(p, exist_ok=...)\<close>: creates \<open>p\<close> and every missing ancestor; an existing
  \<open>p\<close> raises unless \<open>exist_ok\<close>.
\<close>

definition makedirs :: "filesystem \<Rightarrow> path \<Rightarrow> bool \<Rightarrow> error + filesystem" where
  "makedirs fs p exist_ok =
     (if p \<in> set fs then (if exist_ok then Inr fs else Inl FileExistsError)
      else Inr (fs @ filter (\<lambda>q. q \<notin> set fs) (map (\<lambda>n. take n p) [1..<Suc (length p)])))"

definition NPY_DIRNAMES :: "string list" where
  "NPY_DIRNAMES = [''image_volumes'', ''grid_volumes'', ''targets'']"

text \<open>The loop over \<^verbatim>\<open>TO_BE_EXAMINED\<close> for a folder that does not exist.\<close>

fun make_all :: "filesystem \<Rightarrow> path \<Rightarrow> string list \<Rightarrow> error + filesystem" where
  "make_all fs folder [] = Inr fs"
| "make_all fs folder (d # ds) =
     (case makedirs fs (folder @ [d]) False of
        Inl err \<Rightarrow> Inl err
      | Inr fs' \<Rightarrow> make_all fs' folder ds)"

text \<open>
  The loop over \<^verbatim>\<open>TO_BE_EXAMINED\<close> for a folder that exists; the flag tells whether
  \<^verbatim>\<open>missing_npydir[e]\<close> has been assigned.
\<close>

fun examine_dirs ::
  "filesystem \<Rightarrow> path \<Rightarrow> string list \<Rightarrow> bool \<Rightarrow> error + (filesystem \<times> bool)" where
  "examine_dirs fs folder [] flag = Inr (fs, flag)"
| "examine_dirs fs folder (d # ds) flag =
     (if folder @ [d] \<notin> set fs \<or> length (listdir fs (folder @ [d])) = 0 then
        (case makedirs fs (folder @ [d]) True of
           Inl err \<Rightarrow> Inl err
         | Inr fs' \<Rightarrow> examine_dirs fs' folder ds True)
      else examine_dirs fs folder ds flag)"

record examine_state =
  ex_fs :: filesystem
  ex_npydir :: "int \<rightharpoonup> path"
  ex_missing_npydir :: "int \<rightharpoonup> path"

text \<open>The body of \<^verbatim>\<open>for e, name in enumerate(all_exps)\<close>, for the folder of experiment \<open>e\<close>.\<close>

definition examine_exp :: "nat \<Rightarrow> path \<Rightarrow> examine_state \<Rightarrow> error + examine_state" where
  "examine_exp e npy_folder st =
     (if npy_folder \<notin> set (ex_fs st) then
        (case make_all (ex_fs st) npy_folder NPY_DIRNAMES of
           Inl err \<Rightarrow> Inl err
         | Inr fs' \<Rightarrow>
             Inr \<lparr>ex_fs = fs', ex_npydir = (ex_npydir st)(int e \<mapsto> npy_folder),
                  ex_missing_npydir = (ex_missing_npydir st)(int e \<mapsto> npy_folder)\<rparr>)
      else
        (case examine_dirs (ex_fs st) npy_folder NPY_DIRNAMES False of
           Inl err \<Rightarrow> Inl err
         | Inr (fs', flag) \<Rightarrow>
             Inr \<lparr>ex_fs = fs', ex_npydir = (ex_npydir st)(int e \<mapsto> npy_folder),
                  ex_missing_npydir =
                    (if flag then (ex_missing_npydir st)(int e \<mapsto> npy_folder)
                     else ex_missing_npydir st)\<rparr>))"

fun examine_exps :: "nat \<Rightarrow> path list \<Rightarrow> examine_state \<Rightarrow> error + examine_state" where
  "examine_exps e [] st = Inr st"
| "examine_exps e (npy_folder # rest) st =
     (case examine_exp e npy_folder st of
        Inl err \<Rightarrow> Inl err
      | Inr st' \<Rightarrow> examine_exps (Suc e) rest st')"

text \<open>
  \<^verbatim>\<open>[samp for samp in samples if int(samp.split("_")[0]) in list(missing_npydir.keys())]\<close>
\<close>

fun in_missing_dirs :: "(int \<rightharpoonup> path) \<Rightarrow> string list \<Rightarrow> error + string list" where
  "in_missing_dirs missing [] = Inr []"
| "in_missing_dirs missing (samp # samples) =
     (case py_int (hd (split_on CHR ''_'' samp)) of
        Inl err \<Rightarrow> Inl err
      | Inr e \<Rightarrow>
          (case in_missing_dirs missing samples of
             Inl err \<Rightarrow> Inl err
           | Inr ms \<Rightarrow> Inr (if e \<in> dom missing then samp # ms else ms)))"

text \<open>\<^verbatim>\<open>os.path.join(npydir[e], "image_volumes", f"0_{sampleID}.npy")\<close>\<close>

definition sample_file :: "path \<Rightarrow> string \<Rightarrow> path" where
  "sample_file npy_folder sampleID = npy_folder @ [''image_volumes'', ''0_'' @ sampleID @ ''.npy'']"

text \<open>
  The loop "check any other missing npy samples" over the samples not yet reported
  (taken in the order of the sample list, each once).
\<close>

fun check_files ::
  "filesystem \<Rightarrow> (int \<rightharpoonup> path) \<Rightarrow> string list \<Rightarrow> string list \<times> (int \<rightharpoonup> path) \<Rightarrow>
   error + (string list \<times> (int \<rightharpoonup> path))" where
  "check_files fs npydir [] acc = Inr acc"
| "check_files fs npydir (samp # rest) (missing_samples, missing_npydir) =
     (case decode_sample samp of
        Inl err \<Rightarrow> Inl err
      | Inr (e, sampleID) \<Rightarrow>
          (case npydir e of
             None \<Rightarrow> Inl KeyError
           | Some npy_folder \<Rightarrow>
               if sample_file npy_folder sampleID \<notin> set fs then
                 check_files fs npydir rest
                   (missing_samples @ [samp], missing_npydir(e \<mapsto> npy_folder))
               else check_files fs npydir rest (missing_samples, missing_npydir)))"

record examine_result =
  er_fs :: filesystem
  er_npydir :: "int \<rightharpoonup> path"
  er_missing_npydir :: "int \<rightharpoonup> path"
  er_missing_samples :: "string list"

text \<open>
  The examination of \<^verbatim>\<open>make_rat7m\<close> and \<^verbatim>\<open>make_pair\<close>, from \<^verbatim>\<open>NPY_DIRNAMES = ...\<close> to
  \<^verbatim>\<open>missing_samples = np.array(sorted(missing_samples))\<close>; \<open>folders\<close> lists the volume
  folder of every experiment identifier, in the order of the identifiers.
\<close>

definition examine_npy :: "filesystem \<Rightarrow> path list \<Rightarrow> string list \<Rightarrow> error + examine_result" where
  "examine_npy fs folders samples =
     (case examine_exps 0 folders
             \<lparr>ex_fs = fs, ex_npydir = Map.empty, ex_missing_npydir = Map.empty\<rparr> of
        Inl err \<Rightarrow> Inl err
      | Inr st \<Rightarrow>
          (case in_missing_dirs (ex_missing_npydir st) samples of
             Inl err \<Rightarrow> Inl err
           | Inr ms \<Rightarrow>
               (case check_files (ex_fs st) (ex_npydir st)
                       (remdups (filter (\<lambda>s. s \<notin> set ms) samples))
                       (ms, ex_missing_npydir st) of
                  Inl err \<Rightarrow> Inl err
                | Inr (ms', missing') \<Rightarrow>
                    Inr \<lparr>er_fs = ex_fs st, er_npydir = ex_npydir st,
                         er_missing_npydir = missing', er_missing_samples = sort ms'\<rparr>)))"

text \<open>The volume folders of \<^verbatim>\<open>make_rat7m\<close> (one per experiment) and of \<^verbatim>\<open>make_pair\<close> (two).\<close>

definition rat7m_folders :: "path \<Rightarrow> string list \<Rightarrow> path list" where
  "rat7m_folders root_dir all_exps = map (\<lambda>name. root_dir @ [''npy_volumes'', name]) all_exps"

definition pair_folders :: "path \<Rightarrow> string list \<Rightarrow> path list" where
  "pair_folders root_dir exps =
     concat (map (\<lambda>name. [root_dir @ [''npy_folder'', name @ ''an1''],
                           root_dir @ [''npy_folder'', name @ ''an2'']]) exps)"

text \<open>
  Whether the folder of an experiment is reported missing as a whole: it does not exist,
  or one of its three directories does not exist or has no entry.
\<close>

definition dir_missing :: "filesystem \<Rightarrow> path \<Rightarrow> bool" where
  "dir_missing fs npy_folder =
     (npy_folder \<notin> set fs \<or>
      list_ex (\<lambda>d. npy_folder @ [d] \<notin> set fs \<or> listdir fs (npy_folder @ [d]) = []) NPY_DIRNAMES)"

text \<open>
  Example data: the folder of experiment \<^verbatim>\<open>s1-d1\<close> with its three directories; the image
  and grid volumes of frame 5 are there, its target file is not (another one is).
\<close>

definition example_fs :: filesystem where
  "example_fs =
     [[''datasets''], [''datasets'', ''npy_volumes''], [''datasets'', ''npy_volumes'', ''s1-d1''],
      [''datasets'', ''npy_volumes'', ''s1-d1'', ''image_volumes''],
      [''datasets'', ''npy_volumes'', ''s1-d1'', ''grid_volumes''],
      [''datasets'', ''npy_volumes'', ''s1-d1'', ''targets''],
      [''datasets'', ''npy_volumes'', ''s1-d1'', ''image_volumes'', ''0_5.npy''],
      [''datasets'', ''npy_volumes'', ''s1-d1'', ''grid_volumes'', ''0_5.npy''],
      [''datasets'', ''npy_volumes'', ''s1-d1'', ''targets'', ''0_6.npy'']]"

text \<open>
  What the examination of a folder may add to the file system: the folder, its ancestors
  and its directories named in \<open>D\<close>.
\<close>

definition grown :: "path \<Rightarrow> string set \<Rightarrow> filesystem \<Rightarrow> filesystem \<Rightarrow> bool" where
  "grown folder D fs fs' =
     (set fs \<subseteq> set fs' \<and>
      (\<forall>q \<in> set fs'. q \<in> set fs \<or> (\<exists>n \<le> length folder. q = take n folder) \<or>
         (\<exists>d \<in> D. q = folder @ [d])))"

definition grown_many :: "path list \<Rightarrow> filesystem \<Rightarrow> filesystem \<Rightarrow> bool" where
  "grown_many folders fs fs' =
     (set fs \<subseteq> set fs' \<and>
      (\<forall>q \<in> set fs'. q \<in> set fs \<or>
         (\<exists>folder \<in> set folders. (\<exists>n \<le> length folder. q = take n folder) \<or>
            (\<exists>d. q = folder @ [d]))))"

section \<open>Theorems\<close>

subsection \<open>Decimal strings\<close>

lemma digit_char_is_digit: "d < 10 \<Longrightarrow> is_digit (digit_char d)"
proof -
  assume "d < 10"
  then have "d \<in> {0, 1, 2, 3, 4, 5, 6, 7, 8, 9}" by auto
  then show ?thesis by (auto simp: is_digit_def digit_char_def)
qed

lemma digit_val_digit_char: "d < 10 \<Longrightarrow> digit_val (digit_char d) = d"
proof -
  assume "d < 10"
  then have "d \<in> {0, 1, 2, 3, 4, 5, 6, 7, 8, 9}" by auto
  then show ?thesis by (auto simp: digit_val_def digit_char_def)
qed

lemma str_nat_digits: "list_all is_digit (str_nat n)"
proof (induction n rule: str_nat.induct)
  case (1 n)
  show ?case
  proof (cases "n < 10")
    case True
    then show ?thesis by (subst str_nat.simps) (simp add: digit_char_is_digit)
  next
    case False
    with 1 show ?thesis by (subst str_nat.simps) (simp add: digit_char_is_digit)
  qed
qed

lemma str_nat_nonempty: "str_nat n \<noteq> []"
  by (subst str_nat.simps) simp

lemma digits_val_snoc: "digits_val (s @ [c]) = 10 * digits_val s + digit_val c"
  by (simp add: digits_val_def)

lemma digits_val_str_nat: "digits_val (str_nat n) = n"
proof (induction n rule: str_nat.induct)
  case (1 n)
  show ?case
  proof (cases "n < 10")
    case True
    then show ?thesis
      by (subst str_nat.simps) (simp add: digits_val_def digit_val_digit_char)
  next
    case False
    with 1 have "digits_val (str_nat (n div 10)) = n div 10" by simp
    with False show ?thesis
      by (subst str_nat.simps) (simp add: digits_val_snoc digit_val_digit_char)
  qed
qed

lemma is_digit_cases:
  "is_digit c \<Longrightarrow> c \<noteq> CHR ''_'' \<and> c \<noteq> CHR ''-'' \<and> c \<noteq> CHR ''+'' \<and> \<not> is_space c"
  by (auto simp: is_digit_def is_space_def)

lemma py_strip_digits:
  assumes "s \<noteq> []" and "list_all is_digit s"
  shows "py_strip s = s"
proof -
  from assms obtain c r where s: "s = c # r" by (cases s) auto
  with assms have "\<not> is_space c" by (simp add: is_digit_cases)
  with s have a: "dropWhile is_space s = s" by simp
  from assms have "rev s \<noteq> []" "list_all is_digit (rev s)" by (simp_all add: list_all_iff)
  then obtain d t where r: "rev s = d # t" and "is_digit d" by (cases "rev s") auto
  then have "\<not> is_space d" by (simp add: is_digit_cases)
  with r have "dropWhile is_space (rev s) = rev s" by simp
  with a show ?thesis by (simp add: py_strip_def)
qed

lemma py_int_str_nat: "py_int (str_nat n) = Inr (int n)"
proof -
  have ne: "str_nat n \<noteq> []" by (rule str_nat_nonempty)
  have dg: "list_all is_digit (str_nat n)" by (rule str_nat_digits)
  from ne obtain c r where s: "str_nat n = c # r" by (cases "str_nat n") auto
  with dg have "is_digit c" by simp
  then have c: "c \<noteq> CHR ''-''" "c \<noteq> CHR ''+''" by (simp_all add: is_digit_cases)
  have "py_strip (str_nat n) = c # r" using py_strip_digits [OF ne dg] s by simp
  moreover have "digits_val (c # r) = n" using digits_val_str_nat [of n] s by simp
  moreover have "list_all is_digit (c # r)" using dg s by simp
  ultimately show ?thesis using c by (simp add: py_int_def)
qed

lemma str_nat_no_sep: "CHR ''_'' \<notin> set (str_nat n)"
  using str_nat_digits [of n] by (auto simp: list_all_iff dest: is_digit_cases)

lemma str_int_no_sep: "CHR ''_'' \<notin> set (str_int i)"
  by (simp add: str_int_def str_nat_no_sep)

lemma split_on_no_sep: "c \<notin> set s \<Longrightarrow> split_on c s = [s]"
  by (induction s) auto

lemma split_on_append:
  "c \<notin> set a \<Longrightarrow> split_on c (a @ c # b) = a # split_on c b"
  by (induction a) auto

lemma split_on_sample_id:
  "split_on CHR ''_'' (sample_id i f) = [str_nat i, str_int f]"
  by (simp add: sample_id_def split_on_append str_nat_no_sep split_on_no_sep str_int_no_sep)

text \<open>
  C8. An identifier built as \<^verbatim>\<open>str(i) + "_" + str(frame)\<close> decomposes (the way
  \<^verbatim>\<open>make_rat7m\<close> and \<^verbatim>\<open>make_pair\<close> take it apart) into the experiment index \<open>i\<close> and the
  frame token \<^verbatim>\<open>str(frame)\<close>, and joining the two parts again gives the identical string.
\<close>

theorem sample_id_roundtrip:
  "decode_sample (sample_id i f) = Inr (int i, str_int f) \<and>
   encode_parts (int i) (str_int f) = sample_id i f"
proof
  show "decode_sample (sample_id i f) = Inr (int i, str_int f)"
    by (simp add: decode_sample_def split_on_sample_id py_int_str_nat)
  have "str_int (int i) = str_nat i" by (simp add: str_int_def)
  then show "encode_parts (int i) (str_int f) = sample_id i f"
    by (simp add: encode_parts_def sample_id_def)
qed

text \<open>
  C9. With the value \<^verbatim>\<open>"rat7m+pair"\<close> under \<^verbatim>\<open>"dataset"\<close>, \<^verbatim>\<open>set_dataset\<close> raises (the
  unassigned local \<open>spec_args\<close>); with any other value under that key it returns a
  preparer: \<^verbatim>\<open>make_rat7m\<close> for \<^verbatim>\<open>"rat7m"\<close>, \<^verbatim>\<open>make_pair\<close> for \<^verbatim>\<open>"pair"\<close>,
  \<^verbatim>\<open>make_dataset\<close> for everything else.
\<close>

theorem set_dataset_cases:
  assumes "params ''dataset'' = Some d"
  shows "(d = PStr ''rat7m+pair'' \<longrightarrow> set_dataset params = Inl UnboundLocalError) \<and>
         (d \<noteq> PStr ''rat7m+pair'' \<longrightarrow>
            set_dataset params =
              Inr (if d = PStr ''rat7m'' then Make_rat7m
                   else if d = PStr ''pair'' then Make_pair else Make_dataset))"
  using assms by (simp add: set_dataset_def)

theorem set_dataset_cases_witness:
  "set_dataset [''dataset'' \<mapsto> PStr ''rat7m+pair''] = Inl UnboundLocalError \<and>
   set_dataset [''dataset'' \<mapsto> PStr ''rat7m''] = Inr Make_rat7m \<and>
   set_dataset [''dataset'' \<mapsto> PStr ''pair''] = Inr Make_pair \<and>
   set_dataset [''dataset'' \<mapsto> PStr ''label3d''] = Inr Make_dataset \<and>
   set_dataset [''dataset'' \<mapsto> PNone] = Inr Make_dataset"
  using set_dataset_cases [of "[''dataset'' \<mapsto> PStr ''rat7m+pair'']" "PStr ''rat7m+pair''"]
    set_dataset_cases [of "[''dataset'' \<mapsto> PStr ''rat7m'']" "PStr ''rat7m''"]
    set_dataset_cases [of "[''dataset'' \<mapsto> PStr ''pair'']" "PStr ''pair''"]
    set_dataset_cases [of "[''dataset'' \<mapsto> PStr ''label3d'']" "PStr ''label3d''"]
    set_dataset_cases [of "[''dataset'' \<mapsto> PNone]" PNone]
  by simp

text \<open>
  C10. In the dictionary that \<^verbatim>\<open>make_dataset_com_inference\<close> returns, every per-camera
  frame index is the old one if that was non-negative and 0 otherwise, hence never
  negative; the entries are those of the input in the same order, re-keyed with
  \<^verbatim>\<open>"0_"\<close>; and every identifier of the returned partition starts with \<^verbatim>\<open>"0_"\<close>.
\<close>

theorem com_inference_frames_and_prefix:
  "(\<forall>(key, a) \<in> set (ci_datadict (make_dataset_com_inference samples datadict)).
      \<forall>(cam, f) \<in> set (frames a). 0 \<le> f) \<and>
   map (frames \<circ> snd) (ci_datadict (make_dataset_com_inference samples datadict)) =
     map (\<lambda>(key, a). map (\<lambda>(cam, f). (cam, if f < 0 then 0 else f)) (frames a)) datadict \<and>
   map fst (ci_datadict (make_dataset_com_inference samples datadict)) =
     map (\<lambda>(key, a). ''0_'' @ str_int key) datadict \<and>
   (\<forall>(name, ids) \<in> set (ci_partition (make_dataset_com_inference samples datadict)).
      \<forall>s \<in> set ids. take 2 s = ''0_'') \<and>
   ci_partition (make_dataset_com_inference samples datadict) =
     [(''valid_sampleIDs'', map (\<lambda>f. ''0_'' @ str_int f) samples)]"
  by (auto simp: make_dataset_com_inference_def zero_negative_frames_def Let_def
      split: prod.splits)

theorem com_inference_frames_and_prefix_witness:
  "map (frames \<circ> snd) (ci_datadict (make_dataset_com_inference [7, 12]
        [(7, \<lparr>data = (), frames = [(''Camera1'', - 3), (''Camera2'', 12)]\<rparr>)])) =
     [[(''Camera1'', 0), (''Camera2'', 12)]] \<and>
   map fst (ci_datadict (make_dataset_com_inference [7, 12]
        [(7, \<lparr>data = (), frames = [(''Camera1'', - 3), (''Camera2'', 12)]\<rparr>)])) = [''0_7''] \<and>
   ci_partition (make_dataset_com_inference [7, 12]
        [(7, \<lparr>data = (), frames = [(''Camera1'', - 3), (''Camera2'', 12)]\<rparr>)]) =
     [(''valid_sampleIDs'', [''0_7'', ''0_12''])]"
  using com_inference_frames_and_prefix [of "[7, 12]"
      "[(7, \<lparr>data = (), frames = [(''Camera1'', - 3), (''Camera2'', 12)]\<rparr>)]"]
  by (simp add: str_int_def str_nat.simps digit_char_def)

subsection \<open>The big-volume policy\<close>

lemma merge_pairs_Cons_ok:
  assumes "merge_pairs msk vmin vmax cd dd ((vol1, vol2) # v) (nd, nc, samps) = Inr r"
  shows "cd vol1 \<noteq> None \<and> cd vol2 \<noteq> None \<and> dd vol1 \<noteq> None \<and> dd vol2 \<noteq> None"
  using assms by (auto split: option.splits)

lemma merge_pairs_Cons_step:
  assumes "cd vol1 = Some a1" "cd vol2 = Some a2" "dd vol1 = Some p1" "dd vol2 = Some p2"
  shows "merge_pairs msk vmin vmax cd dd ((vol1, vol2) # v) (nd, nc, samps) =
     (if close_pair vmin vmax cd (vol1, vol2) then
        merge_pairs msk vmin vmax cd dd v
          (nd(vol1 \<mapsto> msk (vmin - (vmax - vmin) / 4) (vmax + (vmax - vmin) / 4)
                     ((if fl_lt (fst a1) (fst a2) then p1 else p2) @
                      (if fl_lt (fst a1) (fst a2) then p2 else p1))
                     (vec_half (vec_add a1 a2))),
           nc(vol1 \<mapsto> vec_half (vec_add a1 a2)), samps @ [vol1])
      else merge_pairs msk vmin vmax cd dd v (nd, nc, samps))"
  using assms by (simp add: close_pair_def Let_def)

lemma merge_pairs_samps:
  "merge_pairs msk vmin vmax cd dd v (nd, nc, samps) = Inr (nd', nc', samps') \<Longrightarrow>
   samps' = samps @ map fst (filter (close_pair vmin vmax cd) v)"
proof (induction v arbitrary: nd nc samps)
  case Nil
  then show ?case by simp
next
  case (Cons p v)
  obtain vol1 vol2 where p: "p = (vol1, vol2)" by (cases p)
  from merge_pairs_Cons_ok [OF Cons.prems [unfolded p]] obtain a1 a2 p1 p2 where
    l: "cd vol1 = Some a1" "cd vol2 = Some a2" "dd vol1 = Some p1" "dd vol2 = Some p2" by auto
  show ?case
  proof (cases "close_pair vmin vmax cd (vol1, vol2)")
    case True
    with Cons.prems show ?thesis
      unfolding p merge_pairs_Cons_step [OF l] by (auto dest: Cons.IH)
  next
    case False
    with Cons.prems show ?thesis
      unfolding p merge_pairs_Cons_step [OF l] by (auto dest: Cons.IH)
  qed
qed

lemma merge_pairs_untouched:
  "merge_pairs msk vmin vmax cd dd v (nd, nc, samps) = Inr (nd', nc', samps') \<Longrightarrow>
   s \<notin> fst ` set (filter (close_pair vmin vmax cd) v) \<Longrightarrow> nd' s = nd s \<and> nc' s = nc s"
proof (induction v arbitrary: nd nc samps)
  case Nil
  then show ?case by simp
next
  case (Cons p v)
  obtain vol1 vol2 where p: "p = (vol1, vol2)" by (cases p)
  from merge_pairs_Cons_ok [OF Cons.prems(1) [unfolded p]] obtain a1 a2 p1 p2 where
    l: "cd vol1 = Some a1" "cd vol2 = Some a2" "dd vol1 = Some p1" "dd vol2 = Some p2" by auto
  from Cons.prems(2) have nt: "s \<notin> fst ` set (filter (close_pair vmin vmax cd) v)"
    by (auto split: if_splits)
  show ?case
  proof (cases "close_pair vmin vmax cd (vol1, vol2)")
    case True
    with Cons.prems(2) have ne: "s \<noteq> vol1" unfolding p by auto
    from True Cons.prems(1) have "nd' s = (nd(vol1 \<mapsto> msk (vmin - (vmax - vmin) / 4) (vmax + (vmax - vmin) / 4)
                     ((if fl_lt (fst a1) (fst a2) then p1 else p2) @
                      (if fl_lt (fst a1) (fst a2) then p2 else p1))
                     (vec_half (vec_add a1 a2)))) s \<and> nc' s = (nc(vol1 \<mapsto> vec_half (vec_add a1 a2))) s"
      unfolding p merge_pairs_Cons_step [OF l] using Cons.IH [OF _ nt] by simp
    with ne show ?thesis by simp
  next
    case False
    with Cons.prems(1) show ?thesis
      unfolding p merge_pairs_Cons_step [OF l] using Cons.IH [OF _ nt] by simp
  qed
qed


lemma merge_pairs_entry:
  "merge_pairs msk vmin vmax cd dd v (nd, nc, samps) = Inr (nd', nc', samps') \<Longrightarrow>
   distinct (map fst v) \<Longrightarrow> (vol1, vol2) \<in> set v \<Longrightarrow>
   close_pair vmin vmax cd (vol1, vol2) \<Longrightarrow>
   cd vol1 = Some a1 \<Longrightarrow> cd vol2 = Some a2 \<Longrightarrow> dd vol1 = Some p1 \<Longrightarrow> dd vol2 = Some p2 \<Longrightarrow>
   nc' vol1 = Some (vec_half (vec_add a1 a2)) \<and>
   nd' vol1 = Some (msk (vmin - (vmax - vmin) / 4) (vmax + (vmax - vmin) / 4)
                     ((if fl_lt (fst a1) (fst a2) then p1 else p2) @
                      (if fl_lt (fst a1) (fst a2) then p2 else p1))
                     (vec_half (vec_add a1 a2)))"
proof (induction v arbitrary: nd nc samps)
  case Nil
  then show ?case by simp
next
  case (Cons p v)
  obtain a b where p: "p = (a, b)" by (cases p)
  show ?case
  proof (cases "(vol1, vol2) = p")
    case True
    then have ab: "a = vol1" "b = vol2" using p by auto
    from Cons.prems(2) have "vol1 \<notin> fst ` set v" using p ab by auto
    then have nt: "vol1 \<notin> fst ` set (filter (close_pair vmin vmax cd) v)" by auto
    from Cons.prems(1) have
      "merge_pairs msk vmin vmax cd dd v
         (nd(vol1 \<mapsto> msk (vmin - (vmax - vmin) / 4) (vmax + (vmax - vmin) / 4)
                     ((if fl_lt (fst a1) (fst a2) then p1 else p2) @
                      (if fl_lt (fst a1) (fst a2) then p2 else p1))
                     (vec_half (vec_add a1 a2))),
          nc(vol1 \<mapsto> vec_half (vec_add a1 a2)), samps @ [vol1]) = Inr (nd', nc', samps')"
      unfolding p ab merge_pairs_Cons_step [OF Cons.prems(5-8)] using Cons.prems(4) by simp
    from merge_pairs_untouched [OF this nt] show ?thesis by simp
  next
    case False
    with Cons.prems(3) have mem: "(vol1, vol2) \<in> set v" by auto
    from Cons.prems(2) have d: "distinct (map fst v)" by simp
    from merge_pairs_Cons_ok [OF Cons.prems(1) [unfolded p]] obtain b1 b2 q1 q2 where
      l: "cd a = Some b1" "cd b = Some b2" "dd a = Some q1" "dd b = Some q2" by auto
    from Cons.prems(1) obtain nd1 nc1 samps1 where
      "merge_pairs msk vmin vmax cd dd v (nd1, nc1, samps1) = Inr (nd', nc', samps')"
      unfolding p merge_pairs_Cons_step [OF l] by (auto split: if_splits)
    from Cons.IH [OF this d mem Cons.prems(4-8)] show ?thesis .
  qed
qed


lemma big_volume_loop_Cons_ok:
  assumes "big_volume_loop msk vmin vmax cd dd i ((k, v) # rest) st = Inr st'"
  shows "\<exists>nd nc samps.
           merge_pairs msk vmin vmax cd dd v (new_datadict3d st, new_comdict3d st, []) =
             Inr (nd, nc, samps) \<and> i < length partition_names \<and>
           big_volume_loop msk vmin vmax cd dd (Suc i) rest
              \<lparr>new_datadict3d = nd, new_comdict3d = nc,
               new_partition = (new_partition st)(partition_names ! i \<mapsto> samps),
               samples_acc = samples_acc st @ samps\<rparr> = Inr st'"
  using assms by (auto split: sum.splits if_splits)

lemma big_volume_loop_samples:
  "big_volume_loop msk vmin vmax cd dd i ps st = Inr st' \<Longrightarrow>
   samples_acc st' =
     samples_acc st @ map fst (filter (close_pair vmin vmax cd) (concat (map snd ps)))"
proof (induction ps arbitrary: i st)
  case Nil
  then show ?case by simp
next
  case (Cons kv rest)
  obtain k v where kv: "kv = (k, v)" by (cases kv)
  from big_volume_loop_Cons_ok [OF Cons.prems [unfolded kv]] obtain nd nc samps where
    m: "merge_pairs msk vmin vmax cd dd v (new_datadict3d st, new_comdict3d st, []) =
          Inr (nd, nc, samps)"
    and r: "big_volume_loop msk vmin vmax cd dd (Suc i) rest
              \<lparr>new_datadict3d = nd, new_comdict3d = nc,
               new_partition = (new_partition st)(partition_names ! i \<mapsto> samps),
               samples_acc = samples_acc st @ samps\<rparr> = Inr st'" by blast
  from merge_pairs_samps [OF m] Cons.IH [OF r] show ?case by (simp add: kv)
qed

lemma big_volume_loop_untouched:
  "big_volume_loop msk vmin vmax cd dd i ps st = Inr st' \<Longrightarrow>
   s \<notin> fst ` set (filter (close_pair vmin vmax cd) (concat (map snd ps))) \<Longrightarrow>
   new_datadict3d st' s = new_datadict3d st s \<and> new_comdict3d st' s = new_comdict3d st s"
proof (induction ps arbitrary: i st)
  case Nil
  then show ?case by simp
next
  case (Cons kv rest)
  obtain k v where kv: "kv = (k, v)" by (cases kv)
  from big_volume_loop_Cons_ok [OF Cons.prems(1) [unfolded kv]] obtain nd nc samps where
    m: "merge_pairs msk vmin vmax cd dd v (new_datadict3d st, new_comdict3d st, []) =
          Inr (nd, nc, samps)"
    and r: "big_volume_loop msk vmin vmax cd dd (Suc i) rest
              \<lparr>new_datadict3d = nd, new_comdict3d = nc,
               new_partition = (new_partition st)(partition_names ! i \<mapsto> samps),
               samples_acc = samples_acc st @ samps\<rparr> = Inr st'" by blast
  from Cons.prems(2) have a: "s \<notin> fst ` set (filter (close_pair vmin vmax cd) v)"
    and b: "s \<notin> fst ` set (filter (close_pair vmin vmax cd) (concat (map snd rest)))"
    by (auto simp: kv)
  from merge_pairs_untouched [OF m a] Cons.IH [OF r b] show ?case by simp
qed


lemma big_volume_loop_entry:
  "big_volume_loop msk vmin vmax cd dd i ps st = Inr st' \<Longrightarrow>
   distinct (map fst (concat (map snd ps))) \<Longrightarrow>
   (vol1, vol2) \<in> set (concat (map snd ps)) \<Longrightarrow>
   close_pair vmin vmax cd (vol1, vol2) \<Longrightarrow>
   cd vol1 = Some a1 \<Longrightarrow> cd vol2 = Some a2 \<Longrightarrow> dd vol1 = Some p1 \<Longrightarrow> dd vol2 = Some p2 \<Longrightarrow>
   new_comdict3d st' vol1 = Some (vec_half (vec_add a1 a2)) \<and>
   new_datadict3d st' vol1 =
     Some (msk (vmin - (vmax - vmin) / 4) (vmax + (vmax - vmin) / 4)
            ((if fl_lt (fst a1) (fst a2) then p1 else p2) @
             (if fl_lt (fst a1) (fst a2) then p2 else p1))
            (vec_half (vec_add a1 a2)))"
proof (induction ps arbitrary: i st)
  case Nil
  then show ?case by simp
next
  case (Cons kv rest)
  obtain k v where kv: "kv = (k, v)" by (cases kv)
  from big_volume_loop_Cons_ok [OF Cons.prems(1) [unfolded kv]] obtain nd nc samps where
    m: "merge_pairs msk vmin vmax cd dd v (new_datadict3d st, new_comdict3d st, []) =
          Inr (nd, nc, samps)"
    and r: "big_volume_loop msk vmin vmax cd dd (Suc i) rest
              \<lparr>new_datadict3d = nd, new_comdict3d = nc,
               new_partition = (new_partition st)(partition_names ! i \<mapsto> samps),
               samples_acc = samples_acc st @ samps\<rparr> = Inr st'" by blast
  from Cons.prems(2) have dv: "distinct (map fst v)"
    and dr: "distinct (map fst (concat (map snd rest)))"
    and dj: "fst ` set v \<inter> fst ` set (concat (map snd rest)) = {}"
    by (auto simp: kv)
  from Cons.prems(3) consider "(vol1, vol2) \<in> set v" | "(vol1, vol2) \<in> set (concat (map snd rest))"
    by (auto simp: kv)
  then show ?case
  proof cases
    case 1
    then have "vol1 \<in> fst ` set v" by force
    with dj have "vol1 \<notin> fst ` set (concat (map snd rest))" by blast
    then have nt: "vol1 \<notin> fst ` set (filter (close_pair vmin vmax cd) (concat (map snd rest)))"
      by auto
    from merge_pairs_entry [OF m dv 1 Cons.prems(4-8)] big_volume_loop_untouched [OF r nt]
    show ?thesis by simp
  next
    case 2
    from Cons.IH [OF r dr 2 Cons.prems(4-8)] show ?thesis .
  qed
qed

lemma big_volume_loop_partition:
  "big_volume_loop msk vmin vmax cd dd i ps st = Inr st' \<Longrightarrow>
   new_partition st' n = Some l \<Longrightarrow>
   new_partition st n = Some l \<or>
   (\<exists>v \<in> snd ` set ps. l = map fst (filter (close_pair vmin vmax cd) v))"
proof (induction ps arbitrary: i st)
  case Nil
  then show ?case by simp
next
  case (Cons kv rest)
  obtain k v where kv: "kv = (k, v)" by (cases kv)
  from big_volume_loop_Cons_ok [OF Cons.prems(1) [unfolded kv]] obtain nd nc samps where
    m: "merge_pairs msk vmin vmax cd dd v (new_datadict3d st, new_comdict3d st, []) =
          Inr (nd, nc, samps)"
    and r: "big_volume_loop msk vmin vmax cd dd (Suc i) rest
              \<lparr>new_datadict3d = nd, new_comdict3d = nc,
               new_partition = (new_partition st)(partition_names ! i \<mapsto> samps),
               samples_acc = samples_acc st @ samps\<rparr> = Inr st'" by blast
  from merge_pairs_samps [OF m] have s: "samps = map fst (filter (close_pair vmin vmax cd) v)"
    by simp
  from Cons.IH [OF r Cons.prems(2)] show ?case
    by (auto simp: kv s split: if_splits)
qed

lemma dom_upd_Un: "dom (m(k \<mapsto> x)) \<union> F = insert k (dom m \<union> F)"
  by simp

lemma merge_pairs_dom:
  "merge_pairs msk vmin vmax cd dd v (nd, nc, samps) = Inr (nd', nc', samps') \<Longrightarrow>
   dom nd' = dom nd \<union> fst ` set (filter (close_pair vmin vmax cd) v) \<and>
   dom nc' = dom nc \<union> fst ` set (filter (close_pair vmin vmax cd) v)"
proof (induction v arbitrary: nd nc samps)
  case Nil
  then show ?case by simp
next
  case (Cons p v)
  obtain vol1 vol2 where p: "p = (vol1, vol2)" by (cases p)
  from merge_pairs_Cons_ok [OF Cons.prems [unfolded p]] obtain a1 a2 p1 p2 where
    l: "cd vol1 = Some a1" "cd vol2 = Some a2" "dd vol1 = Some p1" "dd vol2 = Some p2" by auto
  show ?case
  proof (cases "close_pair vmin vmax cd (vol1, vol2)")
    case True
    with Cons.prems have
      "merge_pairs msk vmin vmax cd dd v
          (nd(vol1 \<mapsto> msk (vmin - (vmax - vmin) / 4) (vmax + (vmax - vmin) / 4)
                     ((if fl_lt (fst a1) (fst a2) then p1 else p2) @
                      (if fl_lt (fst a1) (fst a2) then p2 else p1))
                     (vec_half (vec_add a1 a2))),
           nc(vol1 \<mapsto> vec_half (vec_add a1 a2)), samps @ [vol1]) = Inr (nd', nc', samps')"
      unfolding p merge_pairs_Cons_step [OF l] by simp
    from Cons.IH [OF this] have
      "dom nd' = insert vol1 (dom nd \<union> fst ` set (filter (close_pair vmin vmax cd) v))"
      "dom nc' = insert vol1 (dom nc \<union> fst ` set (filter (close_pair vmin vmax cd) v))"
      by (simp_all only: dom_upd_Un)
    moreover have "fst ` set (filter (close_pair vmin vmax cd) (p # v)) =
        insert vol1 (fst ` set (filter (close_pair vmin vmax cd) v))"
      using True by (simp add: p)
    ultimately show ?thesis by simp
  next
    case False
    with Cons.prems have "merge_pairs msk vmin vmax cd dd v (nd, nc, samps) = Inr (nd', nc', samps')"
      unfolding p merge_pairs_Cons_step [OF l] by simp
    moreover have "fst ` set (filter (close_pair vmin vmax cd) (p # v)) =
        fst ` set (filter (close_pair vmin vmax cd) v)"
      using False by (simp add: p)
    ultimately show ?thesis using Cons.IH by simp
  qed
qed

lemma big_volume_loop_dom:
  "big_volume_loop msk vmin vmax cd dd i ps st = Inr st' \<Longrightarrow>
   dom (new_datadict3d st') =
     dom (new_datadict3d st) \<union> fst ` set (filter (close_pair vmin vmax cd) (concat (map snd ps))) \<and>
   dom (new_comdict3d st') =
     dom (new_comdict3d st) \<union> fst ` set (filter (close_pair vmin vmax cd) (concat (map snd ps)))"
proof (induction ps arbitrary: i st)
  case Nil
  then show ?case by simp
next
  case (Cons kv rest)
  obtain k v where kv: "kv = (k, v)" by (cases kv)
  from big_volume_loop_Cons_ok [OF Cons.prems(1) [unfolded kv]] obtain nd nc samps where
    m: "merge_pairs msk vmin vmax cd dd v (new_datadict3d st, new_comdict3d st, []) =
          Inr (nd, nc, samps)"
    and r: "big_volume_loop msk vmin vmax cd dd (Suc i) rest
              \<lparr>new_datadict3d = nd, new_comdict3d = nc,
               new_partition = (new_partition st)(partition_names ! i \<mapsto> samps),
               samples_acc = samples_acc st @ samps\<rparr> = Inr st'" by blast
  from merge_pairs_dom [OF m] Cons.IH [OF r] show ?case by (auto simp: kv)
qed

lemma social_big_volume_ok:
  assumes "social_big_volume msk vmin vmax n (Some ps) cd dd = Inr out"
  shows "\<exists>st. big_volume_loop msk vmin vmax cd dd 0 ps
                 \<lparr>new_datadict3d = Map.empty, new_comdict3d = Map.empty,
                  new_partition = Map.empty, samples_acc = []\<rparr> = Inr st \<and>
               bv_datadict_3d out = new_datadict3d st \<and>
               bv_com3d_dict out = new_comdict3d st \<and>
               bv_samples out = sort (samples_acc st) \<and>
               bv_partition out = new_partition st \<and>
               bv_n_channels_out out = n * 2 \<and>
               bv_vmin out = vmin - (vmax - vmin) / 4 \<and>
               bv_vmax out = vmax + (vmax - vmin) / 4 \<and>
               bv_is_social_dataset out = False"
  using assms by (auto simp: social_big_volume_def Let_def split: sum.splits)

lemma close_pair_finite:
  assumes "cd vol1 = Some (Num x1, Num y1, Num z1)" "cd vol2 = Some (Num x2, Num y2, Num z2)"
  shows "close_pair vmin vmax cd (vol1, vol2) \<longleftrightarrow>
         sqrt ((x1 - x2)\<^sup>2 + (y1 - y2)\<^sup>2 + (z1 - z2)\<^sup>2) \<le> (vmax - vmin) / 2"
proof -
  have "\<not> (x1 - x2) * (x1 - x2) + (y1 - y2) * (y1 - y2) + (z1 - z2) * (z1 - z2) < 0"
    by (simp add: not_less add_nonneg_nonneg)
  then show ?thesis
    using assms by (simp add: close_pair_def com_dist_def power2_eq_square)
qed

lemma close_first_iff:
  assumes "distinct (map fst xs)" "(vol1, vol2) \<in> set xs"
  shows "vol1 \<in> fst ` set (filter P xs) \<longleftrightarrow> P (vol1, vol2)"
proof
  assume "vol1 \<in> fst ` set (filter P xs)"
  then obtain w where w: "(vol1, w) \<in> set xs" "P (vol1, w)" by auto
  from eq_key_imp_eq_value [OF assms(1) w(1) assms(2)] w(2) show "P (vol1, vol2)" by simp
next
  assume "P (vol1, vol2)"
  with assms(2) show "vol1 \<in> fst ` set (filter P xs)" by force
qed


lemma example_run:
  "social_big_volume keep_all (- 60) 60 23 (Some example_pairs) example_com3d example_pose3d =
     Inr example_out"
  by (simp add: social_big_volume_def example_pairs_def example_com3d_def example_pose3d_def
      com_dist_def keep_all_def partition_names_def Let_def example_out_def)

lemma example_pairs_distinct: "distinct (map fst (concat (map snd example_pairs)))"
  by (simp add: example_pairs_def)


text \<open>
  C2, as stated, fails: with the single pair \<^verbatim>\<open>("0_9", "1_9")\<close>, whose COMs are 500 apart
  while the threshold is 60, the block returns no sample at all: empty dictionaries and
  empty train and valid lists.
\<close>

theorem big_volume_far_pair_counterexample:
  "social_big_volume keep_all (- 60) 60 23
     (Some [(''train_pairs'', [(''0_9'', ''1_9'')]), (''valid_pairs'', [])])
     example_com3d example_pose3d =
   Inr \<lparr>bv_datadict_3d = Map.empty, bv_com3d_dict = Map.empty, bv_samples = [],
        bv_partition = [''train_sampleIDs'' \<mapsto> [], ''valid_sampleIDs'' \<mapsto> []],
        bv_n_channels_out = 46, bv_vmin = - 90, bv_vmax = 90,
        bv_is_social_dataset = False\<rparr>"
  by (simp add: social_big_volume_def example_com3d_def example_pose3d_def
      com_dist_def partition_names_def Let_def not_le real_less_rsqrt)

text \<open>
  C2, amended. A pair \<open>(vol1, vol2)\<close> whose COM distance exceeds \<open>(vmax - vmin) / 2\<close> is
  dropped: \<open>vol1\<close> is in no list of the new partition, not among the new samples and has
  no entry in the new dictionaries, and neither has \<open>vol2\<close> (which could only come back as
  the first member of a pair of its own).
\<close>

theorem big_volume_far_pair_dropped:
  assumes run: "social_big_volume msk vmin vmax n (Some ps) cd dd = Inr out"
    and dist: "distinct (map fst (concat (map snd ps)))"
    and mem: "(vol1, vol2) \<in> set (concat (map snd ps))"
    and c1: "cd vol1 = Some (Num x1, Num y1, Num z1)"
    and c2: "cd vol2 = Some (Num x2, Num y2, Num z2)"
    and far: "sqrt ((x1 - x2)\<^sup>2 + (y1 - y2)\<^sup>2 + (z1 - z2)\<^sup>2) > (vmax - vmin) / 2"
    and second: "vol2 \<notin> fst ` set (concat (map snd ps))"
  shows "vol1 \<notin> set (bv_samples out) \<and> vol2 \<notin> set (bv_samples out) \<and>
         vol1 \<notin> dom (bv_datadict_3d out) \<and> vol2 \<notin> dom (bv_datadict_3d out) \<and>
         vol1 \<notin> dom (bv_com3d_dict out) \<and> vol2 \<notin> dom (bv_com3d_dict out) \<and>
         (\<forall>name ids. bv_partition out name = Some ids \<longrightarrow> vol1 \<notin> set ids \<and> vol2 \<notin> set ids)"
proof -
  from social_big_volume_ok [OF run] obtain st where
    loop: "big_volume_loop msk vmin vmax cd dd 0 ps
             \<lparr>new_datadict3d = Map.empty, new_comdict3d = Map.empty,
              new_partition = Map.empty, samples_acc = []\<rparr> = Inr st"
    and out: "bv_datadict_3d out = new_datadict3d st" "bv_com3d_dict out = new_comdict3d st"
      "bv_samples out = sort (samples_acc st)" "bv_partition out = new_partition st"
    by blast
  let ?kept = "fst ` set (filter (close_pair vmin vmax cd) (concat (map snd ps)))"
  have "\<not> close_pair vmin vmax cd (vol1, vol2)"
    using close_pair_finite [OF c1 c2, of vmin vmax] far by simp
  then have k1: "vol1 \<notin> ?kept"
    using close_first_iff [OF dist mem, of "close_pair vmin vmax cd"] by simp
  have k2: "vol2 \<notin> ?kept" using second by auto
  have samples: "set (bv_samples out) = ?kept"
    using big_volume_loop_samples [OF loop] by (simp add: out)
  have doms: "dom (bv_datadict_3d out) = ?kept" "dom (bv_com3d_dict out) = ?kept"
    using big_volume_loop_dom [OF loop] by (simp_all add: out)
  have part: "set ids \<subseteq> ?kept" if "bv_partition out name = Some ids" for name ids
  proof -
    from big_volume_loop_partition [OF loop, of name ids] that
    obtain v where "v \<in> snd ` set ps" "ids = map fst (filter (close_pair vmin vmax cd) v)"
      by (auto simp: out)
    then show ?thesis by auto
  qed
  have pall: "\<forall>name ids. bv_partition out name = Some ids \<longrightarrow>
      vol1 \<notin> set ids \<and> vol2 \<notin> set ids"
  proof (intro allI impI)
    fix name ids
    assume "bv_partition out name = Some ids"
    from part [OF this] k1 k2 show "vol1 \<notin> set ids \<and> vol2 \<notin> set ids" by blast
  qed
  have s1: "vol1 \<notin> set (bv_samples out)" and s2: "vol2 \<notin> set (bv_samples out)"
    using k1 k2 by (simp_all only: samples not_False_eq_True)
  have d1: "vol1 \<notin> dom (bv_datadict_3d out)" and d2: "vol2 \<notin> dom (bv_datadict_3d out)"
    and e1: "vol1 \<notin> dom (bv_com3d_dict out)" and e2: "vol2 \<notin> dom (bv_com3d_dict out)"
    using k1 k2 by (simp_all only: doms not_False_eq_True)
  from s1 s2 d1 d2 e1 e2 pall show ?thesis by (intro conjI)
qed

theorem big_volume_far_pair_dropped_witness:
  "social_big_volume keep_all (- 60) 60 23 (Some example_pairs) example_com3d example_pose3d =
     Inr example_out \<and>
   distinct (map fst (concat (map snd example_pairs))) \<and>
   (''0_9'', ''1_9'') \<in> set (concat (map snd example_pairs)) \<and>
   example_com3d ''0_9'' = Some (Num 0, Num 0, Num 0) \<and>
   example_com3d ''1_9'' = Some (Num 300, Num 400, Num 0) \<and>
   sqrt ((0 - 300)\<^sup>2 + (0 - 400)\<^sup>2 + (0 - 0)\<^sup>2) > ((60 :: real) - (- 60)) / 2 \<and>
   ''1_9'' \<notin> fst ` set (concat (map snd example_pairs)) \<and>
   ''0_9'' \<notin> set (bv_samples example_out) \<and> ''1_9'' \<notin> set (bv_samples example_out) \<and>
   ''0_9'' \<notin> dom (bv_datadict_3d example_out) \<and> ''1_9'' \<notin> dom (bv_datadict_3d example_out) \<and>
   ''0_9'' \<notin> dom (bv_com3d_dict example_out) \<and> ''1_9'' \<notin> dom (bv_com3d_dict example_out) \<and>
   bv_partition example_out ''train_sampleIDs'' = Some [''0_5''] \<and>
   ''0_9'' \<notin> set [''0_5''] \<and> ''1_9'' \<notin> set [''0_5'']"
proof -
  have m9: "(''0_9'', ''1_9'') \<in> set (concat (map snd example_pairs))"
    and n9: "''1_9'' \<notin> fst ` set (concat (map snd example_pairs))"
    by (simp_all add: example_pairs_def)
  have c9: "example_com3d ''0_9'' = Some (Num 0, Num 0, Num 0)"
    "example_com3d ''1_9'' = Some (Num 300, Num 400, Num 0)"
    by (simp_all add: example_com3d_def)
  have s9: "sqrt ((0 - 300)\<^sup>2 + (0 - 400)\<^sup>2 + (0 - 0)\<^sup>2) > ((60 :: real) - (- 60)) / 2"
    by (simp add: real_less_rsqrt)
  have p: "bv_partition example_out ''train_sampleIDs'' = Some [''0_5'']"
    by (simp add: example_out_def)
  note t = big_volume_far_pair_dropped [OF example_run example_pairs_distinct m9 c9 s9 n9]
  from t have "\<forall>name ids. bv_partition example_out name = Some ids \<longrightarrow>
      ''0_9'' \<notin> set ids \<and> ''1_9'' \<notin> set ids"
    by (elim conjE) assumption
  from this [rule_format, OF p]
  have q: "''0_9'' \<notin> set [''0_5''] \<and> ''1_9'' \<notin> set [''0_5'']" .
  from t have r: "''0_9'' \<notin> set (bv_samples example_out)" "''1_9'' \<notin> set (bv_samples example_out)"
    "''0_9'' \<notin> dom (bv_datadict_3d example_out)" "''1_9'' \<notin> dom (bv_datadict_3d example_out)"
    "''0_9'' \<notin> dom (bv_com3d_dict example_out)" "''1_9'' \<notin> dom (bv_com3d_dict example_out)"
    by blast+
  from example_run example_pairs_distinct m9 n9 c9 s9 p q r
  show ?thesis by blast
qed

text \<open>
  C7. For a merged pair the Pose3D handed to \<^verbatim>\<open>mask_coords_outside_volume\<close> (with the
  midpoint COM and the widened extent), whose result is stored under \<open>vol1\<close>, is the
  concatenation along the keypoint axis of the two instances' poses: the pose of \<open>vol1\<close>
  first when its COM has the smaller coordinate on axis 0, the pose of \<open>vol2\<close> first
  otherwise.
\<close>

theorem big_volume_pose_order:
  assumes run: "social_big_volume msk vmin vmax n (Some ps) cd dd = Inr out"
    and dist: "distinct (map fst (concat (map snd ps)))"
    and mem: "(vol1, vol2) \<in> set (concat (map snd ps))"
    and c1: "cd vol1 = Some (Num x1, Num y1, Num z1)"
    and c2: "cd vol2 = Some (Num x2, Num y2, Num z2)"
    and p1: "dd vol1 = Some pose3d1"
    and p2: "dd vol2 = Some pose3d2"
    and close: "sqrt ((x1 - x2)\<^sup>2 + (y1 - y2)\<^sup>2 + (z1 - z2)\<^sup>2) \<le> (vmax - vmin) / 2"
  shows "bv_datadict_3d out vol1 =
           Some (msk (vmin - (vmax - vmin) / 4) (vmax + (vmax - vmin) / 4)
                  (if x1 < x2 then pose3d1 @ pose3d2 else pose3d2 @ pose3d1)
                  (Num ((x1 + x2) / 2), Num ((y1 + y2) / 2), Num ((z1 + z2) / 2)))"
proof -
  from social_big_volume_ok [OF run] obtain st where
    loop: "big_volume_loop msk vmin vmax cd dd 0 ps
             \<lparr>new_datadict3d = Map.empty, new_comdict3d = Map.empty,
              new_partition = Map.empty, samples_acc = []\<rparr> = Inr st"
    and out: "bv_datadict_3d out = new_datadict3d st"
    by blast
  have cp: "close_pair vmin vmax cd (vol1, vol2)"
    using close_pair_finite [OF c1 c2, of vmin vmax] close by simp
  from big_volume_loop_entry [OF loop dist mem cp c1 c2 p1 p2]
  show ?thesis by (simp add: out)
qed

theorem big_volume_pose_order_witness:
  "social_big_volume keep_all (- 60) 60 23 (Some example_pairs) example_com3d example_pose3d =
     Inr example_out \<and>
   distinct (map fst (concat (map snd example_pairs))) \<and>
   (''0_5'', ''1_5'') \<in> set (concat (map snd example_pairs)) \<and>
   example_com3d ''0_5'' = Some (Num 0, Num 0, Num 0) \<and>
   example_com3d ''1_5'' = Some (Num 3, Num 4, Num 0) \<and>
   example_pose3d ''0_5'' = Some [(Num 1, Num 1, Num 1)] \<and>
   example_pose3d ''1_5'' = Some [(Num 2, Num 5, Num 1)] \<and>
   sqrt ((0 - 3)\<^sup>2 + (0 - 4)\<^sup>2 + (0 - 0)\<^sup>2) \<le> ((60 :: real) - (- 60)) / 2 \<and>
   bv_datadict_3d example_out ''0_5'' = Some [(Num 1, Num 1, Num 1), (Num 2, Num 5, Num 1)] \<and>
   (''0_7'', ''1_7'') \<in> set (concat (map snd example_pairs)) \<and>
   example_com3d ''0_7'' = Some (Num 10, Num 0, Num 0) \<and>
   example_com3d ''1_7'' = Some (Num 4, Num 8, Num 0) \<and>
   example_pose3d ''0_7'' = Some [(Num 11, Num 1, Num 1)] \<and>
   example_pose3d ''1_7'' = Some [(Num 5, Num 9, Num 1)] \<and>
   sqrt ((10 - 4)\<^sup>2 + (0 - 8)\<^sup>2 + (0 - 0)\<^sup>2) \<le> ((60 :: real) - (- 60)) / 2 \<and>
   bv_datadict_3d example_out ''0_7'' = Some [(Num 5, Num 9, Num 1), (Num 11, Num 1, Num 1)]"
proof -
  have m5: "(''0_5'', ''1_5'') \<in> set (concat (map snd example_pairs))"
    and m7: "(''0_7'', ''1_7'') \<in> set (concat (map snd example_pairs))"
    by (simp_all add: example_pairs_def)
  have c5: "example_com3d ''0_5'' = Some (Num 0, Num 0, Num 0)"
    "example_com3d ''1_5'' = Some (Num 3, Num 4, Num 0)"
    and c7: "example_com3d ''0_7'' = Some (Num 10, Num 0, Num 0)"
    "example_com3d ''1_7'' = Some (Num 4, Num 8, Num 0)"
    by (simp_all add: example_com3d_def)
  have p5: "example_pose3d ''0_5'' = Some [(Num 1, Num 1, Num 1)]"
    "example_pose3d ''1_5'' = Some [(Num 2, Num 5, Num 1)]"
    and p7: "example_pose3d ''0_7'' = Some [(Num 11, Num 1, Num 1)]"
    "example_pose3d ''1_7'' = Some [(Num 5, Num 9, Num 1)]"
    by (simp_all add: example_pose3d_def)
  have s5: "sqrt ((0 - 3)\<^sup>2 + (0 - 4)\<^sup>2 + (0 - 0)\<^sup>2) \<le> ((60 :: real) - (- 60)) / 2"
    and s7: "sqrt ((10 - 4)\<^sup>2 + (0 - 8)\<^sup>2 + (0 - 0)\<^sup>2) \<le> ((60 :: real) - (- 60)) / 2"
    by (simp_all add: real_le_lsqrt)
  have r5: "bv_datadict_3d example_out ''0_5'' = Some [(Num 1, Num 1, Num 1), (Num 2, Num 5, Num 1)]"
    using big_volume_pose_order [OF example_run example_pairs_distinct m5 c5 p5 s5]
    by (simp add: keep_all_def)
  have r7: "bv_datadict_3d example_out ''0_7'' = Some [(Num 5, Num 9, Num 1), (Num 11, Num 1, Num 1)]"
    using big_volume_pose_order [OF example_run example_pairs_distinct m7 c7 p7 s7]
    by (simp add: keep_all_def)
  from example_run example_pairs_distinct m5 c5 p5 s5 r5 m7 c7 p7 s7 r7
  show ?thesis by blast
qed

subsection \<open>Poses of the PAIR dataset\<close>

lemma pair_to_r7m_twelve:
  "pair_to_r7m [k0, k1, k2, k3, k4, k5, k6, k7, k8, k9, k10, k11] =
     Inr [k0, k1, k2, k3, k4, k5, k6, k7, k8, k9, (NaN, NaN, NaN), (NaN, NaN, NaN), k10, k11,
          (NaN, NaN, NaN), (NaN, NaN, NaN), (NaN, NaN, NaN), (NaN, NaN, NaN), (NaN, NaN, NaN),
          (NaN, NaN, NaN)]"
  by (simp add: pair_to_r7m_def pair_index_def nan_pose_def eval_nat_numeral)

subsection \<open>Partitions\<close>

lemma str_nat_inj: "str_nat a = str_nat b \<Longrightarrow> a = b"
proof -
  assume "str_nat a = str_nat b"
  then have "digits_val (str_nat a) = digits_val (str_nat b)" by (rule arg_cong)
  then show "a = b" by (simp only: digits_val_str_nat)
qed

lemma str_nat_hd_digit: "is_digit (hd (str_nat n))"
  using str_nat_digits [of n] str_nat_nonempty [of n] by (cases "str_nat n") auto

lemma str_nat_not_minus: "str_nat n \<noteq> CHR ''-'' # s"
proof
  assume "str_nat n = CHR ''-'' # s"
  with str_nat_hd_digit [of n] have "is_digit CHR ''-''" by simp
  then show False by (simp add: is_digit_def)
qed

lemma str_int_inj: "str_int f = str_int g \<Longrightarrow> f = g"
proof -
  assume eq: "str_int f = str_int g"
  consider "f < 0" "g < 0" | "f < 0" "\<not> g < 0" | "\<not> f < 0" "g < 0" | "\<not> f < 0" "\<not> g < 0"
    by blast
  then show "f = g"
  proof cases
    case 1
    with eq have "str_nat (nat (- f)) = str_nat (nat (- g))" by (simp add: str_int_def)
    from str_nat_inj [OF this] 1 show ?thesis by simp
  next
    case 2
    with eq have "str_nat (nat g) = CHR ''-'' # str_nat (nat (- f))" by (simp add: str_int_def)
    with str_nat_not_minus show ?thesis by blast
  next
    case 3
    with eq have "str_nat (nat f) = CHR ''-'' # str_nat (nat (- g))" by (simp add: str_int_def)
    with str_nat_not_minus show ?thesis by blast
  next
    case 4
    with eq have "str_nat (nat f) = str_nat (nat g)" by (simp add: str_int_def)
    from str_nat_inj [OF this] 4 show ?thesis by simp
  qed
qed

lemma sample_id_inj: "sample_id i f = sample_id j g \<Longrightarrow> i = j \<and> f = g"
proof -
  assume "sample_id i f = sample_id j g"
  then have "split_on CHR ''_'' (sample_id i f) = split_on CHR ''_'' (sample_id j g)" by simp
  then have "str_nat i = str_nat j" "str_int f = str_int g"
    by (simp_all add: split_on_sample_id)
  then show ?thesis by (simp add: str_nat_inj str_int_inj)
qed

lemma convert_pair_samples_set:
  "set samples \<subseteq> set (convert_pair_samples count cands samples)"
proof (induction count cands samples rule: convert_pair_samples.induct)
  case (1 count samples)
  show ?case by simp
next
  case (2 count cands samples)
  then show ?case by simp
next
  case (3 count drawn cands samples)
  then show ?case by auto
qed

lemma random_choice_props:
  assumes "random_choice pick a n = Inr chosen"
  shows "length chosen = n \<and> set chosen \<subseteq> set a"
proof -
  from assms have c: "chosen = map (\<lambda>i. a ! (pick i mod length a)) [0..<n]"
    and ne: "a \<noteq> [] \<or> n = 0"
    by (auto simp: random_choice_def split: if_splits)
  have "set chosen \<subseteq> set a"
  proof (cases "a = []")
    case True
    with ne c show ?thesis by simp
  next
    case False
    then have "pick i mod length a < length a" for i by simp
    then show ?thesis unfolding c by (auto intro: nth_mem)
  qed
  with c show ?thesis by simp
qed

lemma example_rat7m_train_card: "card (set example_rat7m_train) = 2001"
proof -
  have "inj_on (\<lambda>n. sample_id 0 (int n)) (set [0..<2001])"
    by (rule inj_onI) (auto dest: sample_id_inj)
  then have "distinct example_rat7m_train"
    unfolding example_rat7m_train_def by (simp add: distinct_map)
  from distinct_card [OF this] show ?thesis by (simp add: example_rat7m_train_def)
qed

lemma example_rat7m_run:
  "rat7m_partition id True example_rat7m_train example_rat7m_valid =
     Inr (projr (random_choice id example_rat7m_train 2000), example_rat7m_valid)"
  by (simp add: rat7m_partition_def random_choice_def example_rat7m_train_def)

text \<open>
  C5, as stated, fails: \<^verbatim>\<open>make_rat7m\<close> with \<^verbatim>\<open>merge_pair\<close>, given a split of 2001 train
  samples and one valid sample, returns a partition whose train and valid lists together
  do not cover the samples (2000 draws cannot reach 2001 distinct identifiers).
\<close>

theorem rat7m_subsample_counterexample:
  "rat7m_partition id True example_rat7m_train example_rat7m_valid =
     Inr (projr (random_choice id example_rat7m_train 2000), example_rat7m_valid) \<and>
   set (projr (random_choice id example_rat7m_train 2000)) \<union> set example_rat7m_valid \<noteq>
     set example_rat7m_train \<union> set example_rat7m_valid"
proof -
  let ?t = "projr (random_choice id example_rat7m_train 2000)"
  have run: "random_choice id example_rat7m_train 2000 = Inr ?t"
    by (simp add: random_choice_def example_rat7m_train_def)
  from random_choice_props [OF run] have len: "length ?t = 2000" by simp
  have "card (set ?t) \<le> length ?t" by (rule card_length)
  with len have small: "card (set ?t) \<le> 2000" by simp
  have v: "set example_rat7m_valid \<inter> set example_rat7m_train = {}"
    by (auto simp: example_rat7m_valid_def example_rat7m_train_def dest: sample_id_inj)
  have "set ?t \<union> set example_rat7m_valid \<noteq> set example_rat7m_train \<union> set example_rat7m_valid"
  proof
    assume eq: "set ?t \<union> set example_rat7m_valid =
      set example_rat7m_train \<union> set example_rat7m_valid"
    have "set example_rat7m_train \<subseteq> set ?t"
    proof
      fix x
      assume x: "x \<in> set example_rat7m_train"
      with v have "x \<notin> set example_rat7m_valid" by blast
      moreover from x eq have "x \<in> set ?t \<union> set example_rat7m_valid" by blast
      ultimately show "x \<in> set ?t" by blast
    qed
    then have "card (set example_rat7m_train) \<le> card (set ?t)"
      by (intro card_mono) simp_all
    with small example_rat7m_train_card show False by simp
  qed
  with example_rat7m_run show ?thesis by (intro conjI)
qed

text \<open>
  C5, amended. The partition of \<^verbatim>\<open>make_pair\<close> has disjoint train and valid identifier sets
  whose union is the full sample set. \<^verbatim>\<open>make_rat7m\<close> keeps the given split without
  \<^verbatim>\<open>merge_pair\<close>; with \<^verbatim>\<open>merge_pair\<close> its train list is 2000 draws from the given one, so
  the union of train and valid is only a subset of the samples.
\<close>

theorem partition_disjoint_cover:
  "set (pp_train (make_pair_partition cands_train cands_test)) \<inter>
     set (pp_valid (make_pair_partition cands_train cands_test)) = {} \<and>
   set (pp_train (make_pair_partition cands_train cands_test)) \<union>
     set (pp_valid (make_pair_partition cands_train cands_test)) =
     set (pp_samples (make_pair_partition cands_train cands_test)) \<and>
   rat7m_partition pick False train valid = Inr (train, valid) \<and>
   (rat7m_partition pick True train valid = Inr (train', valid') \<longrightarrow>
      valid' = valid \<and> length train' = 2000 \<and> set train' \<subseteq> set train)"
proof -
  let ?s1 = "convert_pair_samples 0 cands_train []"
  let ?s2 = "convert_pair_samples (length cands_train * 2) cands_test ?s1"
  have sub: "set ?s1 \<subseteq> set ?s2" by (rule convert_pair_samples_set)
  have a: "set (pp_train (make_pair_partition cands_train cands_test)) \<inter>
     set (pp_valid (make_pair_partition cands_train cands_test)) = {}"
    by (auto simp: make_pair_partition_def Let_def)
  have b: "set (pp_train (make_pair_partition cands_train cands_test)) \<union>
     set (pp_valid (make_pair_partition cands_train cands_test)) =
     set (pp_samples (make_pair_partition cands_train cands_test))"
    using sub by (auto simp: make_pair_partition_def Let_def)
  have c: "rat7m_partition pick False train valid = Inr (train, valid)"
    by (simp add: rat7m_partition_def)
  have d: "rat7m_partition pick True train valid = Inr (train', valid') \<longrightarrow>
      valid' = valid \<and> length train' = 2000 \<and> set train' \<subseteq> set train"
  proof
    assume "rat7m_partition pick True train valid = Inr (train', valid')"
    then have "random_choice pick train 2000 = Inr train'" and v: "valid' = valid"
      by (auto simp: rat7m_partition_def split: sum.splits)
    from random_choice_props [OF this(1)] v
    show "valid' = valid \<and> length train' = 2000 \<and> set train' \<subseteq> set train" by simp
  qed
  from a b c d show ?thesis by (intro conjI)
qed

theorem partition_disjoint_cover_witness:
  "rat7m_partition id True example_rat7m_train example_rat7m_valid =
     Inr (projr (random_choice id example_rat7m_train 2000), example_rat7m_valid) \<and>
   length (projr (random_choice id example_rat7m_train 2000)) = 2000 \<and>
   set (projr (random_choice id example_rat7m_train 2000)) \<subseteq> set example_rat7m_train \<and>
   pp_train (make_pair_partition [Some [3, 1], None] [Some [7]]) = [''0_1'', ''0_3'', ''1_1'', ''1_3''] \<and>
   pp_valid (make_pair_partition [Some [3, 1], None] [Some [7]]) = [''4_7'', ''5_7''] \<and>
   pp_samples (make_pair_partition [Some [3, 1], None] [Some [7]]) =
     [''0_3'', ''0_1'', ''1_3'', ''1_1'', ''4_7'', ''5_7'']"
proof -
  note t = partition_disjoint_cover [of "[Some [3, 1], None]" "[Some [7]]" id example_rat7m_train
      example_rat7m_valid "projr (random_choice id example_rat7m_train 2000)" example_rat7m_valid]
  from t example_rat7m_run
  have a: "length (projr (random_choice id example_rat7m_train 2000)) = 2000"
    and b: "set (projr (random_choice id example_rat7m_train 2000)) \<subseteq> set example_rat7m_train"
    by blast+
  have s: "pp_samples (make_pair_partition [Some [3, 1], None] [Some [7]]) =
     [''0_3'', ''0_1'', ''1_3'', ''1_1'', ''4_7'', ''5_7'']"
    by (simp add: make_pair_partition_def Let_def sample_id_def str_int_def str_nat.simps
        digit_char_def)
  have tr: "pp_train (make_pair_partition [Some [3, 1], None] [Some [7]]) =
     [''0_1'', ''0_3'', ''1_1'', ''1_3'']"
    by (simp add: make_pair_partition_def Let_def sample_id_def str_int_def str_nat.simps
        digit_char_def)
  have va: "pp_valid (make_pair_partition [Some [3, 1], None] [Some [7]]) = [''4_7'', ''5_7'']"
    by (simp add: make_pair_partition_def Let_def sample_id_def str_int_def str_nat.simps
        digit_char_def)
  from example_rat7m_run a b tr va s show ?thesis by (intro conjI)
qed

subsection \<open>COM augmentation\<close>

lemma comaug_suffix_no_minus: "CHR ''-'' \<notin> set (''comaug'' @ str_nat i)"
proof -
  have "CHR ''-'' \<notin> set (str_nat i)"
    using str_nat_digits [of i] by (auto simp: list_all_iff dest: is_digit_cases)
  then show ?thesis by simp
qed

lemma sep_suffix_eq:
  assumes "c \<notin> set t2" and "us @ c # t1 = c # t2"
  shows "us = [] \<and> t1 = t2"
proof (cases us)
  case Nil
  with assms(2) show ?thesis by simp
next
  case (Cons u us')
  with assms(2) have "us' @ c # t1 = t2" by simp
  then have "c \<in> set t2" by auto
  with assms(1) show ?thesis by blast
qed

lemma sep_append_inj:
  assumes "c \<notin> set t1" and "c \<notin> set t2" and "s @ c # t1 = s' @ c # t2"
  shows "s = s' \<and> t1 = t2"
proof -
  from assms(3) obtain us where
    "(s = s' @ us \<and> us @ c # t1 = c # t2) \<or> (s @ us = s' \<and> c # t1 = us @ c # t2)"
    unfolding append_eq_append_conv2 by blast
  then show ?thesis
  proof
    assume a: "s = s' @ us \<and> us @ c # t1 = c # t2"
    with sep_suffix_eq [OF assms(2), of us t1] show ?thesis by simp
  next
    assume a: "s @ us = s' \<and> c # t1 = us @ c # t2"
    then have "us @ c # t2 = c # t1" by simp
    from sep_suffix_eq [OF assms(1) this] a show ?thesis by auto
  qed
qed

lemma comaug_tag_inj: "comaug_tag s i = comaug_tag s' j \<Longrightarrow> s = s' \<and> i = j"
proof -
  assume "comaug_tag s i = comaug_tag s' j"
  then have "s @ CHR ''-'' # (''comaug'' @ str_nat i) = s' @ CHR ''-'' # (''comaug'' @ str_nat j)"
    by (simp add: comaug_tag_def)
  from sep_append_inj [OF comaug_suffix_no_minus comaug_suffix_no_minus this]
  have "s = s'" and "''comaug'' @ str_nat i = ''comaug'' @ str_nat j" by simp_all
  then have "str_nat i = str_nat j" by simp
  with \<open>s = s'\<close> show ?thesis by (simp add: str_nat_inj)
qed

text \<open>The identifiers of the loaders are plain; an augmentation tag never is.\<close>

lemma str_nat_plain: "plain_id (str_nat n)"
  using str_nat_digits [of n] by (simp add: plain_id_def list_all_iff)

lemma sample_id_plain: "plain_id (sample_id i frame)"
proof -
  have a: "plain_id (str_int frame)"
    using str_nat_plain [of "nat (- frame)"] str_nat_plain [of "nat frame"]
    by (simp add: str_int_def plain_id_def)
  from str_nat_plain [of i] a show ?thesis
    by (simp add: sample_id_def plain_id_def)
qed

lemma comaug_tag_not_plain: "\<not> plain_id (comaug_tag s i)"
proof -
  have "\<not> (is_digit CHR ''c'' \<or> CHR ''c'' = CHR ''_'' \<or> CHR ''c'' = CHR ''-'')"
    by (simp add: is_digit_def)
  then show ?thesis by (simp add: plain_id_def comaug_tag_def)
qed

lemma comaug_tag_fresh:
  assumes "\<forall>k \<in> ids. plain_id k"
  shows "comaug_tag s i \<notin> ids"
  using assms comaug_tag_not_plain [of s i] by blast

lemma augment_sample_unlabeled:
  assumes "augment_sample rd rnd r i train st s = Inr st'" and "\<not> labeled (as_datadict_3d st) s"
  shows "st' = st"
  using assms by (auto simp: augment_sample_def labeled_def split: if_splits option.splits)

lemma augment_sample_new:
  assumes "augment_sample rd rnd r i train st s = Inr st'" and "s \<in> set train"
  shows "train_samples_new st' =
           train_samples_new st @ (if labeled (as_datadict_3d st) s then [comaug_tag s i] else [])"
  using assms by (auto simp: augment_sample_def labeled_def split: if_splits option.splits)

lemma augment_sample_other:
  assumes "augment_sample rd rnd r i train st s = Inr st'" and "k \<noteq> comaug_tag s i"
  shows "as_datadict_3d st' k = as_datadict_3d st k \<and> as_com3d_dict st' k = as_com3d_dict st k \<and>
         as_datadict st' k = as_datadict st k"
  using assms by (auto simp: augment_sample_def split: if_splits option.splits)

lemma augment_sample_entry:
  assumes "augment_sample rd rnd r i train st s = Inr st'" and "s \<in> set train"
    and "labeled (as_datadict_3d st) s"
  shows "as_datadict_3d st' (comaug_tag s i) = as_datadict_3d st s \<and>
         as_datadict st' (comaug_tag s i) = as_datadict st s \<and>
         as_com3d_dict st s \<noteq> None \<and>
         (\<exists>n. as_com3d_dict st' (comaug_tag s i) =
                map_option (perturb_com rd r (rnd n, rnd (n + 1), rnd (n + 2))) (as_com3d_dict st s))"
proof -
  from assms obtain p c d where
    l: "as_datadict_3d st s = Some p" "\<not> isnan_all p" "as_com3d_dict st s = Some c"
      "as_datadict st s = Some d"
    and st': "st' = \<lparr>as_datadict = (as_datadict st)(comaug_tag s i \<mapsto> d),
                        as_datadict_3d = (as_datadict_3d st)(comaug_tag s i \<mapsto> p),
                        as_com3d_dict = (as_com3d_dict st)(comaug_tag s i \<mapsto>
                          perturb_com rd r
                            (rnd (rng_pos st), rnd (rng_pos st + 1), rnd (rng_pos st + 2)) c),
                        train_samples_new = train_samples_new st @ [comaug_tag s i],
                        rng_pos = rng_pos st + 3\<rparr>"
    by (auto simp: augment_sample_def labeled_def split: if_splits option.splits)
  have "as_com3d_dict st' (comaug_tag s i) =
          map_option (perturb_com rd r (rnd (rng_pos st), rnd (rng_pos st + 1), rnd (rng_pos st + 2)))
            (as_com3d_dict st s)"
    by (simp add: st' l)
  then have "\<exists>n. as_com3d_dict st' (comaug_tag s i) =
                map_option (perturb_com rd r (rnd n, rnd (n + 1), rnd (n + 2))) (as_com3d_dict st s)"
    by (rule exI)
  moreover have "as_datadict_3d st' (comaug_tag s i) = as_datadict_3d st s"
    "as_datadict st' (comaug_tag s i) = as_datadict st s" "as_com3d_dict st s \<noteq> None"
    by (simp_all add: st' l)
  ultimately show ?thesis by (intro conjI)
qed

text \<open>Every pose in the dictionary after a step was in it before.\<close>

lemma augment_sample_ran:
  assumes "augment_sample rd rnd r i train st s = Inr st'"
  shows "ran (as_datadict_3d st') \<subseteq> ran (as_datadict_3d st)"
proof (cases "st' = st")
  case True
  then show ?thesis by simp
next
  case False
  with assms obtain p where p: "as_datadict_3d st s = Some p"
    and d: "as_datadict_3d st' = (as_datadict_3d st)(comaug_tag s i \<mapsto> p)"
    by (auto simp: augment_sample_def split: if_splits option.splits)
  show ?thesis
  proof
    fix q
    assume "q \<in> ran (as_datadict_3d st')"
    then obtain k where k: "as_datadict_3d st' k = Some q" by (auto simp: ran_def)
    show "q \<in> ran (as_datadict_3d st)"
    proof (cases "k = comaug_tag s i")
      case True
      with k d have "q = p" by simp
      with p show ?thesis by (auto simp: ran_def)
    next
      case False
      with k d have "as_datadict_3d st k = Some q" by simp
      then show ?thesis by (auto simp: ran_def)
    qed
  qed
qed

lemma aug_samples_Cons_ok:
  assumes "aug_samples rd rnd r i train (s # rest) st = Inr st'"
  shows "\<exists>st1. augment_sample rd rnd r i train st s = Inr st1 \<and>
               aug_samples rd rnd r i train rest st1 = Inr st'"
  using assms by (auto split: sum.splits)

lemma aug_samples_ran:
  "aug_samples rd rnd r i train xs st = Inr st' \<Longrightarrow>
   ran (as_datadict_3d st') \<subseteq> ran (as_datadict_3d st)"
proof (induction xs arbitrary: st)
  case Nil
  then show ?case by simp
next
  case (Cons s rest)
  from aug_samples_Cons_ok [OF Cons.prems] obtain st1 where
    b: "augment_sample rd rnd r i train st s = Inr st1"
    and l: "aug_samples rd rnd r i train rest st1 = Inr st'" by blast
  from augment_sample_ran [OF b] Cons.IH [OF l] show ?case by (rule order_trans [rotated])
qed

lemma aug_samples_other:
  "aug_samples rd rnd r i train xs st = Inr st' \<Longrightarrow> k \<notin> (\<lambda>s. comaug_tag s i) ` set xs \<Longrightarrow>
   as_datadict_3d st' k = as_datadict_3d st k \<and> as_com3d_dict st' k = as_com3d_dict st k \<and>
   as_datadict st' k = as_datadict st k"
proof (induction xs arbitrary: st)
  case Nil
  then show ?case by simp
next
  case (Cons s rest)
  from aug_samples_Cons_ok [OF Cons.prems(1)] obtain st1 where
    b: "augment_sample rd rnd r i train st s = Inr st1"
    and l: "aug_samples rd rnd r i train rest st1 = Inr st'" by blast
  from Cons.prems(2) have k1: "k \<noteq> comaug_tag s i"
    and k2: "k \<notin> (\<lambda>s. comaug_tag s i) ` set rest" by auto
  from augment_sample_other [OF b k1] Cons.IH [OF l k2] show ?case by simp
qed

lemma aug_samples_new:
  "aug_samples rd rnd r i train xs st = Inr st' \<Longrightarrow> set xs \<subseteq> set train \<Longrightarrow>
   \<forall>y \<in> set xs. comaug_tag y i \<notin> set train \<Longrightarrow>
   train_samples_new st' =
     train_samples_new st @ map (\<lambda>s. comaug_tag s i) (filter (labeled (as_datadict_3d st)) xs)"
proof (induction xs arbitrary: st)
  case Nil
  then show ?case by simp
next
  case (Cons s rest)
  from aug_samples_Cons_ok [OF Cons.prems(1)] obtain st1 where
    b: "augment_sample rd rnd r i train st s = Inr st1"
    and l: "aug_samples rd rnd r i train rest st1 = Inr st'" by blast
  from Cons.prems(2) have s: "s \<in> set train" and sub: "set rest \<subseteq> set train" by auto
  from Cons.prems(3) have fr: "\<forall>y \<in> set rest. comaug_tag y i \<notin> set train"
    and fs: "comaug_tag s i \<notin> set train" by auto
  have same: "labeled (as_datadict_3d st1) y = labeled (as_datadict_3d st) y" if "y \<in> set rest" for y
  proof -
    from that sub fs have "y \<noteq> comaug_tag s i" by blast
    from augment_sample_other [OF b this] show ?thesis by (simp add: labeled_def)
  qed
  then have f: "filter (labeled (as_datadict_3d st1)) rest = filter (labeled (as_datadict_3d st)) rest"
    by (intro filter_cong) simp_all
  from augment_sample_new [OF b s] Cons.IH [OF l sub fr] f show ?case by simp
qed

text \<open>
  The entry under the tag of a labeled sample after the loop, whether or not the sample
  occurs again in the list: a later occurrence overwrites the entry with the same pose and
  annotation and another perturbation of the same COM.
\<close>

lemma aug_samples_entry:
  "aug_samples rd rnd r i train xs st = Inr st' \<Longrightarrow> set xs \<subseteq> set train \<Longrightarrow>
   \<forall>y \<in> set xs. comaug_tag y i \<notin> set train \<Longrightarrow>
   s \<in> set xs \<Longrightarrow> labeled (as_datadict_3d st) s \<Longrightarrow>
   as_datadict_3d st' (comaug_tag s i) = as_datadict_3d st s \<and>
   as_datadict st' (comaug_tag s i) = as_datadict st s \<and>
   as_com3d_dict st s \<noteq> None \<and>
   (\<exists>n. as_com3d_dict st' (comaug_tag s i) =
          map_option (perturb_com rd r (rnd n, rnd (n + 1), rnd (n + 2))) (as_com3d_dict st s))"
proof (induction xs arbitrary: st)
  case Nil
  then show ?case by simp
next
  case (Cons x rest)
  from aug_samples_Cons_ok [OF Cons.prems(1)] obtain st1 where
    b: "augment_sample rd rnd r i train st x = Inr st1"
    and l: "aug_samples rd rnd r i train rest st1 = Inr st'" by blast
  from Cons.prems(2) have x: "x \<in> set train" and sub: "set rest \<subseteq> set train" by auto
  from Cons.prems(3) have fr: "\<forall>y \<in> set rest. comaug_tag y i \<notin> set train"
    and fx: "comaug_tag x i \<notin> set train" by auto
  from Cons.prems(4) sub x have st: "s \<in> set train" by auto
  with fx have ne: "s \<noteq> comaug_tag x i" by blast
  from augment_sample_other [OF b ne] have same:
    "as_datadict_3d st1 s = as_datadict_3d st s" "as_com3d_dict st1 s = as_com3d_dict st s"
    "as_datadict st1 s = as_datadict st s" by simp_all
  with Cons.prems(5) have lab: "labeled (as_datadict_3d st1) s" by (simp add: labeled_def)
  show ?case
  proof (cases "s \<in> set rest")
    case True
    from Cons.IH [OF l sub fr True lab] same show ?thesis by simp
  next
    case False
    with Cons.prems(4) have sx: "s = x" by simp
    have "comaug_tag s i \<notin> (\<lambda>y. comaug_tag y i) ` set rest"
      using False by (auto dest: comaug_tag_inj)
    from aug_samples_other [OF l this]
      augment_sample_entry [OF b x Cons.prems(5) [unfolded sx]] sx
    show ?thesis by simp
  qed
qed

lemma aug_iterations_Cons_ok:
  assumes "aug_iterations rd rnd r train (i # iters) st = Inr st'"
  shows "\<exists>st1. aug_samples rd rnd r i train train st = Inr st1 \<and>
               aug_iterations rd rnd r train iters st1 = Inr st'"
  using assms by (auto split: sum.splits)

lemma aug_iterations_ran:
  "aug_iterations rd rnd r train iters st = Inr st' \<Longrightarrow>
   ran (as_datadict_3d st') \<subseteq> ran (as_datadict_3d st)"
proof (induction iters arbitrary: st)
  case Nil
  then show ?case by simp
next
  case (Cons i iters)
  from aug_iterations_Cons_ok [OF Cons.prems] obtain st1 where
    a: "aug_samples rd rnd r i train train st = Inr st1"
    and l: "aug_iterations rd rnd r train iters st1 = Inr st'" by blast
  from aug_samples_ran [OF a] Cons.IH [OF l] show ?case by (rule order_trans [rotated])
qed

lemma aug_iterations_other:
  "aug_iterations rd rnd r train iters st = Inr st' \<Longrightarrow>
   \<forall>s \<in> set train. \<forall>i \<in> set iters. k \<noteq> comaug_tag s i \<Longrightarrow>
   as_datadict_3d st' k = as_datadict_3d st k \<and> as_com3d_dict st' k = as_com3d_dict st k \<and>
   as_datadict st' k = as_datadict st k"
proof (induction iters arbitrary: st)
  case Nil
  then show ?case by simp
next
  case (Cons i iters)
  from aug_iterations_Cons_ok [OF Cons.prems(1)] obtain st1 where
    a: "aug_samples rd rnd r i train train st = Inr st1"
    and l: "aug_iterations rd rnd r train iters st1 = Inr st'" by blast
  from Cons.prems(2) have k1: "k \<notin> (\<lambda>s. comaug_tag s i) ` set train"
    and k2: "\<forall>s \<in> set train. \<forall>i \<in> set iters. k \<noteq> comaug_tag s i" by auto
  from aug_samples_other [OF a k1] Cons.IH [OF l k2] show ?case by simp
qed

lemma aug_iterations_new:
  "aug_iterations rd rnd r train iters st = Inr st' \<Longrightarrow>
   \<forall>y \<in> set train. \<forall>i \<in> set iters. comaug_tag y i \<notin> set train \<Longrightarrow>
   train_samples_new st' = train_samples_new st @ comaug_new (as_datadict_3d st) train iters"
proof (induction iters arbitrary: st)
  case Nil
  then show ?case by (simp add: comaug_new_def)
next
  case (Cons i iters)
  from aug_iterations_Cons_ok [OF Cons.prems(1)] obtain st1 where
    a: "aug_samples rd rnd r i train train st = Inr st1"
    and l: "aug_iterations rd rnd r train iters st1 = Inr st'" by blast
  from Cons.prems(2) have fi: "\<forall>y \<in> set train. comaug_tag y i \<notin> set train"
    and fr: "\<forall>y \<in> set train. \<forall>i \<in> set iters. comaug_tag y i \<notin> set train" by auto
  have same: "labeled (as_datadict_3d st1) y = labeled (as_datadict_3d st) y" if "y \<in> set train" for y
  proof -
    from that fi have "y \<notin> (\<lambda>s. comaug_tag s i) ` set train" by blast
    from aug_samples_other [OF a this] show ?thesis by (simp add: labeled_def)
  qed
  then have f: "filter (labeled (as_datadict_3d st1)) train = filter (labeled (as_datadict_3d st)) train"
    by (intro filter_cong) simp_all
  from aug_samples_new [OF a subset_refl fi] Cons.IH [OF l fr] f
  show ?case by (simp add: comaug_new_def)
qed

lemma aug_iterations_entry:
  "aug_iterations rd rnd r train iters st = Inr st' \<Longrightarrow>
   \<forall>y \<in> set train. \<forall>i \<in> set iters. comaug_tag y i \<notin> set train \<Longrightarrow>
   distinct iters \<Longrightarrow>
   s \<in> set train \<Longrightarrow> labeled (as_datadict_3d st) s \<Longrightarrow> i \<in> set iters \<Longrightarrow>
   as_datadict_3d st' (comaug_tag s i) = as_datadict_3d st s \<and>
   as_datadict st' (comaug_tag s i) = as_datadict st s \<and>
   as_com3d_dict st s \<noteq> None \<and>
   (\<exists>n. as_com3d_dict st' (comaug_tag s i) =
          map_option (perturb_com rd r (rnd n, rnd (n + 1), rnd (n + 2))) (as_com3d_dict st s))"
proof (induction iters arbitrary: st)
  case Nil
  then show ?case by simp
next
  case (Cons j iters)
  from aug_iterations_Cons_ok [OF Cons.prems(1)] obtain st1 where
    a: "aug_samples rd rnd r j train train st = Inr st1"
    and l: "aug_iterations rd rnd r train iters st1 = Inr st'" by blast
  from Cons.prems(2) have fj: "\<forall>y \<in> set train. comaug_tag y j \<notin> set train"
    and fr: "\<forall>y \<in> set train. \<forall>i \<in> set iters. comaug_tag y i \<notin> set train" by auto
  from Cons.prems(3) have di: "distinct iters" and ji: "j \<notin> set iters" by auto
  show ?case
  proof (cases "i = j")
    case True
    have "\<forall>y \<in> set train. \<forall>i' \<in> set iters. comaug_tag s i \<noteq> comaug_tag y i'"
      using ji True by (auto dest: comaug_tag_inj)
    from aug_iterations_other [OF l this]
      aug_samples_entry [OF a subset_refl fj Cons.prems(4) Cons.prems(5)] True
    show ?thesis by simp
  next
    case False
    with Cons.prems(6) have ii: "i \<in> set iters" by simp
    from Cons.prems(4) fj have "s \<notin> (\<lambda>y. comaug_tag y j) ` set train" by blast
    from aug_samples_other [OF a this] have same:
      "as_datadict_3d st1 s = as_datadict_3d st s" "as_com3d_dict st1 s = as_com3d_dict st s"
      "as_datadict st1 s = as_datadict st s" by simp_all
    with Cons.prems(5) have lab: "labeled (as_datadict_3d st1) s" by (simp add: labeled_def)
    from Cons.IH [OF l fr di Cons.prems(4) lab ii] same show ?thesis by simp
  qed
qed

lemma sample_COM_augmentation_ok:
  assumes "sample_COM_augmentation rd rnd datadict datadict_3d com3d_dict train valid r m = Inr out"
  shows "\<exists>st. aug_iterations rd rnd r train [0..<m]
                 \<lparr>as_datadict = datadict, as_datadict_3d = datadict_3d,
                  as_com3d_dict = com3d_dict, train_samples_new = [], rng_pos = 0\<rparr> = Inr st \<and>
               ao_samples out = sort (train @ train_samples_new st @ valid) \<and>
               ao_datadict out = as_datadict st \<and>
               ao_datadict_3d out = as_datadict_3d st \<and>
               ao_com3d_dict out = as_com3d_dict st \<and>
               ao_train out = sort (train @ train_samples_new st) \<and>
               ao_valid out = valid"
  using assms by (auto simp: sample_COM_augmentation_def split: sum.splits)

lemma sample_COM_augmentation_ran:
  assumes "sample_COM_augmentation rd rnd datadict datadict_3d com3d_dict train valid r m = Inr out"
  shows "ran (ao_datadict_3d out) \<subseteq> ran datadict_3d"
proof -
  from sample_COM_augmentation_ok [OF assms] obtain st where
    loop: "aug_iterations rd rnd r train [0..<m]
                 \<lparr>as_datadict = datadict, as_datadict_3d = datadict_3d,
                  as_com3d_dict = com3d_dict, train_samples_new = [], rng_pos = 0\<rparr> = Inr st"
    and out: "ao_datadict_3d out = as_datadict_3d st" by blast
  from aug_iterations_ran [OF loop] show ?thesis unfolding out by simp
qed

text \<open>The offset stays within the radius when the rounding is monotone.\<close>

lemma com_aug_bound:
  assumes m: "mono rd" and idem: "\<forall>x. rd (rd x) = rd x" and odd: "\<forall>x. rd (- x) = - rd x"
    and dbl: "rd (r * 2) = rd r * 2" and r0: "0 \<le> r" and u0: "0 \<le> u" and u1: "u < 1"
  shows "\<bar>com_aug rd r u\<bar> \<le> rd r"
proof -
  from odd have "rd (- 0) = - rd 0" by blast
  then have z: "rd 0 = 0" by simp
  from m r0 have "rd 0 \<le> rd r" by (rule monoD)
  with z have R0: "0 \<le> rd r" by simp
  have RR: "rd (rd r) = rd r" using idem by blast
  have R2: "rd (rd r * 2) = rd r * 2" using idem [rule_format, of "r * 2"] dbl by simp
  have a0: "0 \<le> rd r * 2 * u" using R0 u0 by simp
  have "rd r * 2 * u \<le> rd r * 2 * 1" using R0 u1 by (intro mult_left_mono) simp_all
  then have a1: "rd r * 2 * u \<le> rd r * 2" by simp
  from m a0 have "rd 0 \<le> rd (rd r * 2 * u)" by (rule monoD)
  with z have b0: "0 \<le> rd (rd r * 2 * u)" by simp
  from m a1 have "rd (rd r * 2 * u) \<le> rd (rd r * 2)" by (rule monoD)
  with R2 have b1: "rd (rd r * 2 * u) \<le> rd r * 2" by simp
  from b0 have c0: "- rd r \<le> rd (rd r * 2 * u) - rd r" by simp
  from b1 have c1: "rd (rd r * 2 * u) - rd r \<le> rd r" by simp
  from m c0 have "rd (- rd r) \<le> rd (rd (rd r * 2 * u) - rd r)" by (rule monoD)
  with odd RR have d0: "- rd r \<le> rd (rd (rd r * 2 * u) - rd r)" by simp
  from m c1 have "rd (rd (rd r * 2 * u) - rd r) \<le> rd (rd r)" by (rule monoD)
  with RR have d1: "rd (rd (rd r * 2 * u) - rd r) \<le> rd r" by simp
  from d0 d1 show ?thesis unfolding com_aug_def dbl by (simp add: abs_le_iff)
qed

lemma rounded_sum_interval:
  fixes rd :: "real \<Rightarrow> real"
  assumes "mono rd" and "\<bar>off\<bar> \<le> R"
  shows "rd (x - R) \<le> rd (x + off)" and "rd (x + off) \<le> rd (x + R)"
proof -
  from assms(2) have a: "x - R \<le> x + off" and b: "x + off \<le> x + R" by linarith+
  from assms(1) a show "rd (x - R) \<le> rd (x + off)" by (rule monoD)
  from assms(1) b show "rd (x + off) \<le> rd (x + R)" by (rule monoD)
qed

lemma perturb_com_finite:
  "perturb_com rd r (u1, u2, u3) (Num x, Num y, Num z) =
     (Num (rd (x + com_aug rd r u1)), Num (rd (y + com_aug rd r u2)),
      Num (rd (z + com_aug rd r u3)))"
  by simp

lemma comaug_new_distinct:
  assumes "distinct train" and "distinct iters"
  shows "distinct (comaug_new datadict_3d train iters)"
proof (cases "filter (labeled datadict_3d) train = []")
  case True
  have "distinct (concat (map (\<lambda>i. []) iters) :: string list)" by (induction iters) simp_all
  with True show ?thesis by (simp add: comaug_new_def)
next
  case False
  then obtain s0 rest where f: "filter (labeled datadict_3d) train = s0 # rest"
    by (cases "filter (labeled datadict_3d) train") auto
  show ?thesis
    unfolding comaug_new_def
  proof (rule distinct_concat)
    have "inj_on (\<lambda>i. map (\<lambda>s. comaug_tag s i) (filter (labeled datadict_3d) train)) (set iters)"
      by (rule inj_onI) (auto simp: f dest: comaug_tag_inj)
    with assms(2)
    show "distinct (map (\<lambda>i. map (\<lambda>s. comaug_tag s i) (filter (labeled datadict_3d) train)) iters)"
      by (simp add: distinct_map)
  next
    fix ys
    assume "ys \<in> set (map (\<lambda>i. map (\<lambda>s. comaug_tag s i) (filter (labeled datadict_3d) train)) iters)"
    then obtain i where ys: "ys = map (\<lambda>s. comaug_tag s i) (filter (labeled datadict_3d) train)"
      by auto
    have "inj_on (\<lambda>s. comaug_tag s i) (set (filter (labeled datadict_3d) train))"
      by (rule inj_onI) (auto dest: comaug_tag_inj)
    with assms(1) show "distinct ys" unfolding ys by (simp add: distinct_map)
  next
    fix ys zs
    assume "ys \<in> set (map (\<lambda>i. map (\<lambda>s. comaug_tag s i) (filter (labeled datadict_3d) train)) iters)"
      and "zs \<in> set (map (\<lambda>i. map (\<lambda>s. comaug_tag s i) (filter (labeled datadict_3d) train)) iters)"
      and ne: "ys \<noteq> zs"
    then obtain i j where ys: "ys = map (\<lambda>s. comaug_tag s i) (filter (labeled datadict_3d) train)"
      and zs: "zs = map (\<lambda>s. comaug_tag s j) (filter (labeled datadict_3d) train)"
      by auto
    from ne ys zs have "i \<noteq> j" by auto
    then show "set ys \<inter> set zs = {}" unfolding ys zs by (auto dest: comaug_tag_inj)
  qed
qed

lemma comaug_new_set:
  "set (comaug_new datadict_3d train iters) =
     {comaug_tag s i | s i. s \<in> set train \<and> labeled datadict_3d s \<and> i \<in> set iters}"
  by (auto simp: comaug_new_def)

lemma comaug_new_length:
  "length (comaug_new datadict_3d train iters) =
     length iters * length (filter (labeled datadict_3d) train)"
  by (induction iters) (simp_all add: comaug_new_def)

text \<open>A tag is added as often as its sample occurs in the train list.\<close>

lemma comaug_tag_eq_iff: "comaug_tag s' j = comaug_tag s i \<longleftrightarrow> s' = s \<and> j = i"
  using comaug_tag_inj [of s' j s i] by blast

lemma count_list_tags:
  "count_list (map (\<lambda>s. comaug_tag s j) xs) (comaug_tag s i) =
     (if i = j then count_list xs s else 0)"
proof (induction xs)
  case Nil
  then show ?case by simp
next
  case (Cons x xs)
  show ?case
  proof (cases "i = j")
    case True
    with Cons show ?thesis by (simp add: comaug_tag_eq_iff)
  next
    case False
    then have "j \<noteq> i" by simp
    with Cons False show ?thesis by (simp add: comaug_tag_eq_iff)
  qed
qed

lemma count_list_filter_same: "P s \<Longrightarrow> count_list (filter P xs) s = count_list xs s"
  by (induction xs) simp_all

lemma comaug_new_Cons:
  "comaug_new datadict_3d train (j # iters) =
     map (\<lambda>s. comaug_tag s j) (filter (labeled datadict_3d) train) @
     comaug_new datadict_3d train iters"
  by (simp add: comaug_new_def)

lemma comaug_new_count:
  "distinct iters \<Longrightarrow> labeled datadict_3d s \<Longrightarrow>
   count_list (comaug_new datadict_3d train iters) (comaug_tag s i) =
     (if i \<in> set iters then count_list train s else 0)"
proof (induction iters)
  case Nil
  then show ?case by (simp add: comaug_new_def)
next
  case (Cons j iters)
  from Cons.prems have d: "distinct iters" and j: "j \<notin> set iters" by simp_all
  have f: "count_list (filter (labeled datadict_3d) train) s = count_list train s"
    using Cons.prems(2) by (rule count_list_filter_same)
  show ?case
  proof (cases "i = j")
    case True
    with j have "i \<notin> set iters" by simp
    with Cons.IH [OF d Cons.prems(2)] True f show ?thesis
      unfolding comaug_new_Cons by (simp add: count_list_tags)
  next
    case False
    with Cons.IH [OF d Cons.prems(2)] show ?thesis
      unfolding comaug_new_Cons by (simp add: count_list_tags)
  qed
qed

text \<open>The rounding to the nearest integer is monotone, odd and the identity on integers.\<close>

lemma round_half_even_cases:
  "round_half_even x = \<lfloor>x\<rfloor> \<or> round_half_even x = \<lfloor>x\<rfloor> + 1"
  by (simp add: round_half_even_def)

lemma round_half_even_of_int: "round_half_even (of_int n) = n"
  by (simp add: round_half_even_def)

lemma round_half_even_mono: "x \<le> y \<Longrightarrow> round_half_even x \<le> round_half_even y"
proof -
  assume le: "x \<le> y"
  have fl: "\<lfloor>x\<rfloor> \<le> \<lfloor>y\<rfloor>" by (rule floor_mono [OF le])
  show ?thesis
  proof (cases "\<lfloor>x\<rfloor> = \<lfloor>y\<rfloor>")
    case True
    with le have "x - of_int \<lfloor>x\<rfloor> \<le> y - of_int \<lfloor>x\<rfloor>" by simp
    with True show ?thesis by (simp add: round_half_even_def)
  next
    case False
    with fl have a: "\<lfloor>x\<rfloor> + 1 \<le> \<lfloor>y\<rfloor>" by simp
    have b: "round_half_even x \<le> \<lfloor>x\<rfloor> + 1" using round_half_even_cases [of x] by linarith
    have c: "\<lfloor>y\<rfloor> \<le> round_half_even y" using round_half_even_cases [of y] by linarith
    from a b c show ?thesis by linarith
  qed
qed

lemma round_half_even_minus: "round_half_even (- x) = - round_half_even x"
proof (cases "x = of_int \<lfloor>x\<rfloor>")
  case True
  then have "- x = of_int (- \<lfloor>x\<rfloor>)" by simp
  then have "round_half_even (- x) = - \<lfloor>x\<rfloor>" by (simp only: round_half_even_of_int)
  moreover from True have "round_half_even x = \<lfloor>x\<rfloor>"
    using round_half_even_of_int [of "\<lfloor>x\<rfloor>"] by simp
  ultimately show ?thesis by simp
next
  case False
  then have "\<lceil>x\<rceil> = \<lfloor>x\<rfloor> + 1" by (simp add: ceiling_altdef)
  then have f: "\<lfloor>- x\<rfloor> = - \<lfloor>x\<rfloor> - 1" by (simp add: ceiling_def)
  have e: "even (- \<lfloor>x\<rfloor> - 1) \<longleftrightarrow> odd \<lfloor>x\<rfloor>" by simp
  show ?thesis
    unfolding round_half_even_def f e by (simp add: algebra_simps)
qed

text \<open>\<open>binade n x\<close> is the binary exponent of \<open>x\<close>, cut off at \<open>-n\<close> and \<open>n\<close>.\<close>

lemma pow2_pos: "0 < (2 :: real) powi k"
  by (simp add: zero_less_power_int)

lemma pow2_Suc: "(2 :: real) powi (k + 1) = 2 * 2 powi k"
  by (simp add: power_int_add_1')

lemma pow2_pred: "(2 :: real) powi (k - 1) = 2 powi k / 2"
  using pow2_Suc [of "k - 1"] by simp

lemma pow2_mono: "k \<le> l \<Longrightarrow> (2 :: real) powi k \<le> 2 powi l"
  by (rule power_int_increasing) simp_all

lemma binade_range: "- int n \<le> binade n x \<and> binade n x \<le> int n"
proof (induction n arbitrary: x)
  case 0
  then show ?case by simp
next
  case (Suc n)
  from Suc [of "x / 2"] Suc [of "x * 2"] show ?case by simp
qed

lemma binade_small: "x < 2 \<Longrightarrow> binade n x \<le> 0"
proof (induction n arbitrary: x)
  case 0
  then show ?case by simp
next
  case (Suc n)
  show ?case
  proof (cases "x < 1")
    case True
    then have "x * 2 < 2" by simp
    from Suc.IH [OF this] True show ?thesis by simp
  next
    case False
    with Suc.prems show ?thesis by simp
  qed
qed

lemma binade_big: "1 \<le> x \<Longrightarrow> 0 \<le> binade n x"
proof (induction n arbitrary: x)
  case 0
  then show ?case by simp
next
  case (Suc n)
  show ?case
  proof (cases "2 \<le> x")
    case True
    then have "1 \<le> x / 2" by simp
    from Suc.IH [OF this] True show ?thesis by simp
  next
    case False
    with Suc.prems show ?thesis by simp
  qed
qed

lemma binade_upper: "binade n x < int n \<Longrightarrow> x < 2 powi (binade n x + 1)"
proof (induction n arbitrary: x)
  case 0
  then show ?case by simp
next
  case (Suc n)
  consider "2 \<le> x" | "x < 1" | "1 \<le> x \<and> x < 2" by linarith
  then show ?case
  proof cases
    case 1
    then have b: "binade (Suc n) x = binade n (x / 2) + 1" by simp
    with Suc.prems have "binade n (x / 2) < int n" by simp
    from Suc.IH [OF this] have "x / 2 < 2 powi (binade n (x / 2) + 1)" .
    then have "x < 2 * 2 powi (binade n (x / 2) + 1)" by simp
    then show ?thesis unfolding b pow2_Suc [of "binade n (x / 2) + 1"] .
  next
    case 2
    then have b: "binade (Suc n) x = binade n (x * 2) - 1" by simp
    from 2 have "x * 2 < 2" by simp
    from binade_small [OF this] have s: "binade n (x * 2) \<le> 0" .
    show ?thesis
    proof (cases "binade n (x * 2) < int n")
      case True
      from Suc.IH [OF this] have "x * 2 < 2 * 2 powi binade n (x * 2)" unfolding pow2_Suc .
      then show ?thesis unfolding b by simp
    next
      case False
      with s binade_range [of n "x * 2"] have "binade n (x * 2) = 0" by linarith
      with 2 show ?thesis unfolding b by simp
    qed
  next
    case 3
    then show ?thesis by simp
  qed
qed

lemma binade_lower: "- int n < binade n x \<Longrightarrow> 2 powi binade n x \<le> x"
proof (induction n arbitrary: x)
  case 0
  then show ?case by simp
next
  case (Suc n)
  consider "2 \<le> x" | "x < 1" | "1 \<le> x \<and> x < 2" by linarith
  then show ?case
  proof cases
    case 1
    then have b: "binade (Suc n) x = binade n (x / 2) + 1" by simp
    from 1 have "1 \<le> x / 2" by simp
    from binade_big [OF this] have s: "0 \<le> binade n (x / 2)" .
    show ?thesis
    proof (cases "- int n < binade n (x / 2)")
      case True
      from Suc.IH [OF this] have "2 * 2 powi binade n (x / 2) \<le> x" by simp
      then show ?thesis unfolding b pow2_Suc .
    next
      case False
      with s binade_range [of n "x / 2"] have "binade n (x / 2) = 0" by linarith
      with 1 show ?thesis unfolding b by simp
    qed
  next
    case 2
    then have b: "binade (Suc n) x = binade n (x * 2) - 1" by simp
    with Suc.prems have "- int n < binade n (x * 2)" by simp
    from Suc.IH [OF this] have "2 powi binade n (x * 2) / 2 \<le> x" by simp
    then show ?thesis unfolding b pow2_pred .
  next
    case 3
    then show ?thesis by simp
  qed
qed

lemma binade_le: "x < 2 powi (k + 1) \<Longrightarrow> - int n \<le> k \<Longrightarrow> binade n x \<le> k"
proof (rule ccontr)
  assume x: "x < 2 powi (k + 1)" and k: "- int n \<le> k" and "\<not> binade n x \<le> k"
  then have b: "k + 1 \<le> binade n x" by simp
  with k have "- int n < binade n x" by simp
  from binade_lower [OF this] pow2_mono [OF b] x show False by linarith
qed

lemma binade_ge: "2 powi k \<le> x \<Longrightarrow> k \<le> int n \<Longrightarrow> k \<le> binade n x"
proof (rule ccontr)
  assume x: "2 powi k \<le> x" and k: "k \<le> int n" and "\<not> k \<le> binade n x"
  then have b: "binade n x + 1 \<le> k" by simp
  with k have "binade n x < int n" by simp
  from binade_upper [OF this] pow2_mono [OF b] x show False by linarith
qed

lemma binade_mono: "x \<le> y \<Longrightarrow> binade n x \<le> binade n y"
proof (rule ccontr)
  assume le: "x \<le> y" and "\<not> binade n x \<le> binade n y"
  then have b: "binade n y + 1 \<le> binade n x" by simp
  with binade_range [of n x] have "binade n y < int n" by linarith
  from binade_upper [OF this] have u: "y < 2 powi (binade n y + 1)" .
  from b binade_range [of n y] have "- int n < binade n x" by linarith
  from binade_lower [OF this] have l: "2 powi binade n x \<le> x" .
  from u l pow2_mono [OF b] le show False by linarith
qed

text \<open>The rounding of binary64 is odd, monotone and the identity on its own values.\<close>

lemma round_half_even_pow2: "0 \<le> k \<Longrightarrow> real_of_int (round_half_even (2 powi k)) = 2 powi k"
proof -
  assume "0 \<le> k"
  then have e: "(2 :: real) powi k = of_int (2 ^ nat k)" by (simp add: power_int_def)
  show ?thesis unfolding e by (simp only: round_half_even_of_int)
qed

lemma quantum64_pos: "0 < quantum64 x"
  by (simp add: quantum64_def pow2_pos)

lemma quantum64_minus: "quantum64 (- x) = quantum64 x"
  by (simp add: quantum64_def exponent64_def)

lemma quantum64_scale: "quantum64 x * 2 powi k = 2 powi (exponent64 x - 52 + k)"
  unfolding quantum64_def by (simp add: power_int_add)

lemma rd64_scaled: "rd64 x = of_int (round_half_even (x / quantum64 x)) * quantum64 x"
  using round_half_even_of_int [of 0] by (simp add: rd64_def)

lemma rd64_minus: "rd64 (- x) = - rd64 x"
  by (simp add: rd64_scaled quantum64_minus round_half_even_minus)

lemma rd64_nonneg: "0 \<le> x \<Longrightarrow> 0 \<le> rd64 x"
proof -
  assume "0 \<le> x"
  with quantum64_pos [of x] have "0 \<le> x / quantum64 x" by simp
  from round_half_even_mono [OF this] round_half_even_of_int [of 0]
  have "0 \<le> round_half_even (x / quantum64 x)" by simp
  with quantum64_pos [of x] show ?thesis by (simp add: rd64_scaled)
qed

lemma exponent64_pos: "0 < x \<Longrightarrow> exponent64 x = max (binade 1100 x) (- 1022)"
  by (simp add: exponent64_def)

lemma exponent64_mono: "0 < x \<Longrightarrow> x \<le> y \<Longrightarrow> exponent64 x \<le> exponent64 y"
  using binade_mono [of x y 1100] by (simp add: exponent64_pos)

lemma quantum64_52: "2 powi 52 * quantum64 x = 2 powi exponent64 x"
proof -
  have "exponent64 x - 52 + 52 = exponent64 x" by simp
  with quantum64_scale [of x 52] have "quantum64 x * 2 powi 52 = 2 powi exponent64 x"
    by (simp only:)
  then show ?thesis by (simp only: mult.commute [of "2 powi 52"])
qed

lemma quantum64_53: "2 powi 53 * quantum64 x = 2 powi (exponent64 x + 1)"
proof -
  have "exponent64 x - 52 + 53 = exponent64 x + 1" by simp
  with quantum64_scale [of x 53] have "quantum64 x * 2 powi 53 = 2 powi (exponent64 x + 1)"
    by (simp only:)
  then show ?thesis by (simp only: mult.commute [of "2 powi 53"])
qed

lemma round_half_even_52: "real_of_int (round_half_even (2 powi 52)) = 2 powi 52"
  by (rule round_half_even_pow2) simp

lemma round_half_even_53: "real_of_int (round_half_even (2 powi 53)) = 2 powi 53"
  by (rule round_half_even_pow2) simp

text \<open>A number of the normal range is rounded to at least the power of two below it.\<close>

lemma rd64_lower:
  assumes x: "0 < x" and n: "- 1022 < binade 1100 x"
  shows "2 powi exponent64 x \<le> rd64 x"
proof -
  from x n have e: "exponent64 x = binade 1100 x" by (simp add: exponent64_pos)
  from n have "- int 1100 < binade 1100 x" by simp
  from binade_lower [OF this] have "2 powi exponent64 x \<le> x" unfolding e .
  then have "2 powi 52 * quantum64 x \<le> x" by (simp only: quantum64_52)
  then have "2 powi 52 \<le> x / quantum64 x"
    by (simp only: pos_le_divide_eq [OF quantum64_pos])
  from round_half_even_mono [OF this]
  have "real_of_int (round_half_even (2 powi 52)) \<le> of_int (round_half_even (x / quantum64 x))"
    by (simp only: of_int_le_iff)
  then have "2 powi 52 \<le> real_of_int (round_half_even (x / quantum64 x))"
    by (simp only: round_half_even_52)
  then have "2 powi 52 * quantum64 x \<le> of_int (round_half_even (x / quantum64 x)) * quantum64 x"
    by (simp only: mult_le_cancel_right_pos [OF quantum64_pos])
  then show ?thesis by (simp only: quantum64_52 rd64_scaled [symmetric])
qed

text \<open>A number below the largest exponent is rounded to at most the power of two above it.\<close>

lemma rd64_upper:
  assumes x: "0 < x" and n: "binade 1100 x < 1100"
  shows "rd64 x \<le> 2 powi (exponent64 x + 1)"
proof -
  from x have e: "binade 1100 x \<le> exponent64 x" by (simp add: exponent64_pos)
  from n have "binade 1100 x < int 1100" by simp
  from binade_upper [OF this] have "x < 2 powi (binade 1100 x + 1)" .
  moreover from e have "(2 :: real) powi (binade 1100 x + 1) \<le> 2 powi (exponent64 x + 1)"
    by (intro pow2_mono) simp
  ultimately have "x \<le> 2 powi (exponent64 x + 1)" by linarith
  then have "x \<le> 2 powi 53 * quantum64 x" by (simp only: quantum64_53)
  then have "x / quantum64 x \<le> 2 powi 53"
    by (simp only: pos_divide_le_eq [OF quantum64_pos])
  from round_half_even_mono [OF this]
  have "real_of_int (round_half_even (x / quantum64 x)) \<le> of_int (round_half_even (2 powi 53))"
    by (simp only: of_int_le_iff)
  then have "real_of_int (round_half_even (x / quantum64 x)) \<le> 2 powi 53"
    by (simp only: round_half_even_53)
  then have "of_int (round_half_even (x / quantum64 x)) * quantum64 x \<le> 2 powi 53 * quantum64 x"
    by (simp only: mult_le_cancel_right_pos [OF quantum64_pos])
  then show ?thesis by (simp only: quantum64_53 rd64_scaled [symmetric])
qed

lemma rd64_mono_pos:
  assumes x: "0 < x" and le: "x \<le> y"
  shows "rd64 x \<le> rd64 y"
proof -
  from x le have y: "0 < y" by simp
  from exponent64_mono [OF x le] have ee: "exponent64 x \<le> exponent64 y" .
  show ?thesis
  proof (cases "exponent64 x = exponent64 y")
    case True
    then have q: "quantum64 y = quantum64 x" by (simp add: quantum64_def)
    from le quantum64_pos [of x] have "x / quantum64 x \<le> y / quantum64 x"
      by (simp add: divide_le_cancel)
    from round_half_even_mono [OF this]
    have "real_of_int (round_half_even (x / quantum64 x)) \<le>
        of_int (round_half_even (y / quantum64 x))"
      by (simp only: of_int_le_iff)
    with quantum64_pos [of x] show ?thesis
      unfolding rd64_scaled [of x] rd64_scaled [of y] q by (simp only: mult_le_cancel_right_pos)
  next
    case False
    with ee have lt: "exponent64 x + 1 \<le> exponent64 y" by simp
    from x have "- 1022 \<le> exponent64 x" by (simp add: exponent64_pos)
    with lt have "- 1022 < exponent64 y" by simp
    with y have ny: "- 1022 < binade 1100 y" by (simp add: exponent64_pos)
    from x have "binade 1100 x \<le> exponent64 x" by (simp add: exponent64_pos)
    moreover from y binade_range [of 1100 y] have "exponent64 y \<le> 1100"
      by (simp add: exponent64_pos)
    ultimately have nx: "binade 1100 x < 1100" using lt by linarith
    from rd64_upper [OF x nx] pow2_mono [OF lt] rd64_lower [OF y ny]
    show ?thesis by linarith
  qed
qed

lemma rd64_mono: "mono rd64"
proof (rule monoI)
  fix x y :: real
  assume le: "x \<le> y"
  consider "0 < x" | "x \<le> 0 \<and> 0 \<le> y" | "y < 0" using le by linarith
  then show "rd64 x \<le> rd64 y"
  proof cases
    case 1
    from rd64_mono_pos [OF this le] show ?thesis .
  next
    case 2
    then have "0 \<le> - x" by simp
    from rd64_nonneg [OF this] have "rd64 x \<le> 0" by (simp add: rd64_minus)
    moreover from 2 have "0 \<le> rd64 y" by (simp add: rd64_nonneg)
    ultimately show ?thesis by linarith
  next
    case 3
    then have "0 < - y" and "- y \<le> - x" using le by simp_all
    from rd64_mono_pos [OF this] show ?thesis by (simp add: rd64_minus)
  qed
qed

lemma pow2_of_int: "0 \<le> k \<Longrightarrow> (2 :: real) powi k = of_int (2 ^ nat k)"
  by (simp add: power_int_def)

lemma rd64_fix:
  assumes "y = of_int N * quantum64 y"
  shows "rd64 y = y"
proof -
  from assms quantum64_pos [of y] have "y / quantum64 y = of_int N"
    by (simp add: nonzero_divide_eq_eq)
  then have "round_half_even (y / quantum64 y) = N" by (simp only: round_half_even_of_int)
  with assms show ?thesis by (simp only: rd64_scaled [of y])
qed

lemma rd64_idem_pos:
  assumes x: "0 < x"
  shows "rd64 (rd64 x) = rd64 x"
proof (cases "rd64 x = 0")
  case True
  then show ?thesis by (simp add: rd64_def)
next
  case False
  with rd64_nonneg [of x] x have y: "0 < rd64 x" by simp
  define n where "n = round_half_even (x / quantum64 x)"
  have yn: "rd64 x = of_int n * quantum64 x" unfolding n_def by (rule rd64_scaled)
  from x have E: "- 1022 \<le> exponent64 x" by (simp add: exponent64_pos)
  have same: "rd64 (rd64 x) = rd64 x" if "exponent64 (rd64 x) = exponent64 x"
  proof -
    from that have "quantum64 (rd64 x) = quantum64 x" by (simp add: quantum64_def)
    with yn have "rd64 x = of_int n * quantum64 (rd64 x)" by simp
    then show ?thesis by (rule rd64_fix)
  qed
  show ?thesis
  proof (cases "binade 1100 x < 1100")
    case False
    with binade_range [of 1100 x] have b: "binade 1100 x = 1100" by simp
    with x have e: "exponent64 x = 1100" by (simp add: exponent64_pos)
    from b have "- 1022 < binade 1100 x" by simp
    from rd64_lower [OF x this] have "2 powi 1100 \<le> rd64 x" unfolding e .
    then have "1100 \<le> binade 1100 (rd64 x)" by (rule binade_ge) simp
    with binade_range [of 1100 "rd64 x"] have "binade 1100 (rd64 x) = 1100" by simp
    with y have "exponent64 (rd64 x) = 1100" by (simp add: exponent64_pos)
    with e show ?thesis by (simp only: same)
  next
    case True
    from rd64_upper [OF x True] have up: "rd64 x \<le> 2 powi (exponent64 x + 1)" .
    from x True have E1: "exponent64 x + 1 \<le> 1100" by (simp add: exponent64_pos)
    show ?thesis
    proof (cases "rd64 x = 2 powi (exponent64 x + 1)")
      case top: True
      from E1 have "exponent64 x + 1 \<le> int 1100" by simp
      with top have ge: "exponent64 x + 1 \<le> binade 1100 (rd64 x)"
        by (intro binade_ge) simp_all
      have "(2 :: real) powi (exponent64 x + 1) < 2 powi (exponent64 x + 1 + 1)"
        by (rule power_int_strict_increasing) simp_all
      with top have "rd64 x < 2 powi (exponent64 x + 1 + 1)" by simp
      moreover from E have "- int 1100 \<le> exponent64 x + 1" by simp
      ultimately have "binade 1100 (rd64 x) \<le> exponent64 x + 1" by (rule binade_le)
      with ge have "binade 1100 (rd64 x) = exponent64 x + 1" by simp
      with y E have "exponent64 (rd64 x) = exponent64 x + 1" by (simp add: exponent64_pos)
      with top have "rd64 x = 2 powi exponent64 (rd64 x)" by simp
      then have "rd64 x = 2 powi 52 * quantum64 (rd64 x)" by (simp only: quantum64_52)
      moreover have "(2 :: real) powi 52 = of_int (2 ^ nat 52)" by (rule pow2_of_int) simp
      ultimately have "rd64 x = of_int (2 ^ nat 52) * quantum64 (rd64 x)" by (simp only:)
      then show ?thesis by (rule rd64_fix)
    next
      case False
      with up have "rd64 x < 2 powi (exponent64 x + 1)" by simp
      moreover from E have "- int 1100 \<le> exponent64 x" by simp
      ultimately have "binade 1100 (rd64 x) \<le> exponent64 x" by (rule binade_le)
      with y E have le: "exponent64 (rd64 x) \<le> exponent64 x" by (simp add: exponent64_pos)
      have "exponent64 x \<le> exponent64 (rd64 x)"
      proof (cases "- 1022 < binade 1100 x")
        case n: True
        from rd64_lower [OF x n] have "2 powi exponent64 x \<le> rd64 x" .
        moreover from E1 have "exponent64 x \<le> int 1100" by simp
        ultimately have "exponent64 x \<le> binade 1100 (rd64 x)" by (rule binade_ge)
        with y show ?thesis by (simp add: exponent64_pos)
      next
        case False
        with x have "exponent64 x = - 1022" by (simp add: exponent64_pos)
        with y show ?thesis by (simp add: exponent64_pos)
      qed
      with le have "exponent64 (rd64 x) = exponent64 x" by simp
      then show ?thesis by (rule same)
    qed
  qed
qed

lemma rd64_idem: "\<forall>x. rd64 (rd64 x) = rd64 x"
proof
  fix x :: real
  consider "x = 0" | "0 < x" | "x < 0" by linarith
  then show "rd64 (rd64 x) = rd64 x"
  proof cases
    case 1
    then show ?thesis by (simp add: rd64_def)
  next
    case 2
    then show ?thesis by (rule rd64_idem_pos)
  next
    case 3
    then have "0 < - x" by simp
    from rd64_idem_pos [OF this] have "rd64 (- rd64 x) = - rd64 x" by (simp only: rd64_minus)
    then show ?thesis by (simp add: rd64_minus)
  qed
qed

lemma rd64_odd: "\<forall>x. rd64 (- x) = - rd64 x"
  using rd64_minus by blast

text \<open>Doubling is exact in the normal range, short of the largest exponent.\<close>

lemma binade_eq: "2 powi k \<le> x \<Longrightarrow> x < 2 powi (k + 1) \<Longrightarrow> - int n \<le> k \<Longrightarrow> k \<le> int n \<Longrightarrow>
  binade n x = k"
  using binade_ge [of k x n] binade_le [of x k n] by simp

lemma rd64_double:
  assumes lo: "2 powi (- 1022) \<le> \<bar>x\<bar>" and hi: "\<bar>x\<bar> < 2 powi 1099"
  shows "rd64 (x * 2) = rd64 x * 2"
proof -
  define b where "b = binade 1100 \<bar>x\<bar>"
  from lo have b1: "- 1022 \<le> b" unfolding b_def by (rule binade_ge) simp
  from hi have "\<bar>x\<bar> < 2 powi (1098 + 1)" by simp
  then have b2: "b \<le> 1098" unfolding b_def by (rule binade_le) simp
  from b1 have "- int 1100 < binade 1100 \<bar>x\<bar>" unfolding b_def by simp
  from binade_lower [OF this] have l: "2 powi b \<le> \<bar>x\<bar>" unfolding b_def .
  from b2 have "binade 1100 \<bar>x\<bar> < int 1100" unfolding b_def by simp
  from binade_upper [OF this] have u: "\<bar>x\<bar> < 2 powi (b + 1)" unfolding b_def .
  from l have l2: "2 powi (b + 1) \<le> \<bar>x * 2\<bar>" unfolding pow2_Suc by (simp add: abs_mult)
  from u have u2: "\<bar>x * 2\<bar> < 2 powi (b + 1 + 1)"
    unfolding pow2_Suc [of "b + 1"] by (simp add: abs_mult)
  from b1 b2 have "- int 1100 \<le> b + 1" "b + 1 \<le> int 1100" by simp_all
  from binade_eq [OF l2 u2 this] have "binade 1100 \<bar>x * 2\<bar> = b + 1" .
  with b1 have e2: "exponent64 (x * 2) = b + 1" by (simp add: exponent64_def)
  from b1 have e1: "exponent64 x = b" by (simp add: exponent64_def b_def)
  have "b + 1 - 52 = (b - 52) + 1" by simp
  then have q: "quantum64 (x * 2) = 2 * quantum64 x"
    unfolding quantum64_def e1 e2 by (simp only: pow2_Suc)
  from quantum64_pos [of x] have d: "x * 2 / (2 * quantum64 x) = x / quantum64 x" by simp
  show ?thesis unfolding rd64_scaled [of "x * 2"] rd64_scaled [of x] q d by simp
qed

lemma binade_numeral:
  "binade (numeral k) x =
     (if 2 \<le> x then binade (pred_numeral k) (x / 2) + 1
      else if x < 1 then binade (pred_numeral k) (x * 2) - 1
      else 0)"
  by (simp add: numeral_eq_Suc)

lemmas rd64_eval =
  rd64_def quantum64_def exponent64_def binade_numeral round_half_even_def power_int_def
  power_divide

lemma rd64_tenth: "rd64 (1 / 10) = 3602879701896397 / 36028797018963968"
  by (simp add: rd64_eval)

lemma rd64_thousand_tenth: "rd64 (10001 / 10) = 8796972631510221 / 8796093022208"
  by (simp add: rd64_eval)

text \<open>
  C3, as stated, fails in two ways. First, when an identifier occurs twice in the train
  list, as it does after the \<^verbatim>\<open>np.random.choice\<close> of \<^verbatim>\<open>make_rat7m\<close> and in the list of
  \<^verbatim>\<open>make_pair\<close>: with one iteration the labeled sample \<^verbatim>\<open>0_3\<close>, listed twice, gets two new
  entries in the train list, both under the tag \<^verbatim>\<open>0_3-comaug0\<close>, and the COM of the first
  visit is overwritten by that of the second. Second, the sum is rounded: with the radius
  \<^verbatim>\<open>0.1\<close>, the coordinate \<^verbatim>\<open>1000.1\<close> and the draw 0 the new coordinate is \<^verbatim>\<open>1000.0\<close>, which
  is further from the old one than the radius.
\<close>

theorem com_augmentation_counterexample:
  "sample_COM_augmentation rd64 example_rnd example_dup_datadict example_dup_pose3d
     example_dup_com3d [''0_3'', ''0_3''] [] 20 1 = Inr example_dup_out \<and>
   labeled example_dup_pose3d ''0_3'' \<and>
   set [''0_3'', ''0_3''] = {''0_3''} \<and>
   ao_train example_dup_out = [''0_3'', ''0_3'', ''0_3-comaug0'', ''0_3-comaug0''] \<and>
   \<not> distinct (ao_train example_dup_out) \<and>
   length (filter (\<lambda>k. k \<notin> set [''0_3'', ''0_3'']) (ao_train example_dup_out)) = 2 \<and>
   perturb_com rd64 20 (example_rnd 0, example_rnd 1, example_rnd 2)
     (Num 100, Num 200, Num 300) = (Num 80, Num (365 / 2), Num 285) \<and>
   ao_com3d_dict example_dup_out ''0_3-comaug0'' = Some (Num (175 / 2), Num 180, Num (565 / 2)) \<and>
   sample_COM_augmentation rd64 (\<lambda>n. 0) example_dup_datadict example_dup_pose3d
     example_round_com3d [''0_3''] [] (rd64 (1 / 10)) 1 = Inr example_round_out \<and>
   example_round_com3d ''0_3'' = Some (Num (rd64 (10001 / 10)), Num 0, Num 0) \<and>
   ao_com3d_dict example_round_out ''0_3-comaug0'' =
     Some (Num 1000, Num (- rd64 (1 / 10)), Num (- rd64 (1 / 10))) \<and>
   rd64 (1 / 10) < \<bar>1000 - rd64 (10001 / 10)\<bar>"
proof -
  have u: "[0..<1] = [0]" by (simp add: upt_rec)
  have g: "perturb_com rd64 20 (example_rnd 0, example_rnd 1, example_rnd 2)
     (Num 100, Num 200, Num 300) = (Num 80, Num (365 / 2), Num 285)"
    by (simp add: example_rnd_def com_aug_def rd64_eval)
  have g2: "perturb_com rd64 20 (example_rnd 3, example_rnd 4, example_rnd 5)
     (Num 100, Num 200, Num 300) = (Num (175 / 2), Num 180, Num (565 / 2))"
    by (simp add: example_rnd_def com_aug_def rd64_eval)
  have g3: "perturb_com rd64 (rd64 (1 / 10)) (0, 0, 0) (Num (rd64 (10001 / 10)), Num 0, Num 0) =
      (Num 1000, Num (- rd64 (1 / 10)), Num (- rd64 (1 / 10)))"
    by (simp add: com_aug_def rd64_eval)
  have a: "sample_COM_augmentation rd64 example_rnd example_dup_datadict example_dup_pose3d
     example_dup_com3d [''0_3'', ''0_3''] [] 20 1 = Inr example_dup_out"
    unfolding sample_COM_augmentation_def u
    by (simp add: augment_sample_def example_dup_out_def example_dup_datadict_def
        example_dup_pose3d_def example_dup_com3d_def g g2 del: perturb_com.simps
        add: comaug_tag_def isnan_all_def str_nat.simps digit_char_def)
  have b: "labeled example_dup_pose3d ''0_3''"
    by (simp add: labeled_def example_dup_pose3d_def isnan_all_def)
  have c: "set [''0_3'', ''0_3''] = {''0_3''}" by simp
  have d: "ao_train example_dup_out = [''0_3'', ''0_3'', ''0_3-comaug0'', ''0_3-comaug0'']"
    by (simp add: example_dup_out_def)
  have e: "\<not> distinct (ao_train example_dup_out)" unfolding d by simp
  have f: "length (filter (\<lambda>k. k \<notin> set [''0_3'', ''0_3'']) (ao_train example_dup_out)) = 2"
    unfolding d by simp
  have h: "ao_com3d_dict example_dup_out ''0_3-comaug0'' =
      Some (Num (175 / 2), Num 180, Num (565 / 2))"
    by (simp add: example_dup_out_def)
  have i: "sample_COM_augmentation rd64 (\<lambda>n. 0) example_dup_datadict example_dup_pose3d
     example_round_com3d [''0_3''] [] (rd64 (1 / 10)) 1 = Inr example_round_out"
    unfolding sample_COM_augmentation_def u
    by (simp add: augment_sample_def example_round_out_def example_dup_datadict_def
        example_dup_pose3d_def example_round_com3d_def g3 del: perturb_com.simps
        add: comaug_tag_def isnan_all_def str_nat.simps digit_char_def)
  have j: "example_round_com3d ''0_3'' = Some (Num (rd64 (10001 / 10)), Num 0, Num 0)"
    by (simp add: example_round_com3d_def)
  have k: "ao_com3d_dict example_round_out ''0_3-comaug0'' =
     Some (Num 1000, Num (- rd64 (1 / 10)), Num (- rd64 (1 / 10)))"
    by (simp add: example_round_out_def)
  have l: "rd64 (1 / 10) < \<bar>1000 - rd64 (10001 / 10)\<bar>"
    unfolding rd64_tenth rd64_thousand_tenth by simp
  from a b c d e f g h i j k l show ?thesis by (intro conjI)
qed

text \<open>
  C3, amended. \<open>rd\<close> is the rounding of double arithmetic: monotone, the identity on its
  own values and odd, as \<open>rd64\<close> is, and exact on the doubling of the radius, as \<open>rd64\<close> is
  for a radius of the normal range. The draws are in \<open>[0, 1)\<close>, the
  radius is not negative, and every identifier of the two lists and every key of the
  three dictionaries is plain, as the identifiers of the loaders are. Then: the valid list
  is unchanged; the train list becomes the sorted old list plus, for every \<open>i < m\<close> and
  every occurrence of a labeled sample \<open>s\<close> in the train list, the identifier
  \<open>comaug_tag s i\<close>; the new identifiers differ from every old identifier and key; each of
  them occurs as often as its sample does in the train list, so they are pairwise
  different, \<open>m\<close> per labeled sample, when the train list has no repetition; the new
  sample has the Pose3D and the annotation of \<open>s\<close>, and its COM is, on every axis, the
  rounded sum of the COM of \<open>s\<close> and an offset of absolute value at most the rounded
  radius, so it lies between the roundings of the old coordinate minus and plus the
  radius; and every old key keeps its Pose3D, COM and annotation.
\<close>

theorem com_augmentation_adds:
  assumes run: "sample_COM_augmentation rd rnd datadict datadict_3d com3d_dict train valid r m =
      Inr out"
    and rng: "\<forall>n. 0 \<le> rnd n \<and> rnd n < 1"
    and r0: "0 \<le> r"
    and mn: "mono rd"
    and idem: "\<forall>x. rd (rd x) = rd x"
    and odd: "\<forall>x. rd (- x) = - rd x"
    and dbl: "rd (r * 2) = rd r * 2"
    and ids: "\<forall>k \<in> set train \<union> set valid \<union> dom datadict \<union> dom datadict_3d \<union> dom com3d_dict.
      plain_id k"
  shows "ao_valid out = valid \<and>
         ao_train out = sort (train @ comaug_new datadict_3d train [0..<m]) \<and>
         ao_samples out = sort (train @ comaug_new datadict_3d train [0..<m] @ valid) \<and>
         length (comaug_new datadict_3d train [0..<m]) =
           m * length (filter (labeled datadict_3d) train) \<and>
         (distinct train \<longrightarrow> distinct (comaug_new datadict_3d train [0..<m])) \<and>
         set (comaug_new datadict_3d train [0..<m]) \<inter>
           (set train \<union> set valid \<union> dom datadict \<union> dom datadict_3d \<union> dom com3d_dict) = {} \<and>
         (\<forall>s \<in> set train. \<forall>i < m. labeled datadict_3d s \<longrightarrow>
            comaug_tag s i \<in> set (ao_train out) \<and>
            count_list (comaug_new datadict_3d train [0..<m]) (comaug_tag s i) =
              count_list train s \<and>
            ao_datadict_3d out (comaug_tag s i) = datadict_3d s \<and>
            ao_datadict out (comaug_tag s i) = datadict s \<and>
            (\<forall>x y z. com3d_dict s = Some (Num x, Num y, Num z) \<longrightarrow>
               (\<exists>ox oy oz. \<bar>ox\<bar> \<le> rd r \<and> \<bar>oy\<bar> \<le> rd r \<and> \<bar>oz\<bar> \<le> rd r \<and>
                  ao_com3d_dict out (comaug_tag s i) =
                    Some (Num (rd (x + ox)), Num (rd (y + oy)), Num (rd (z + oz))) \<and>
                  rd (x - rd r) \<le> rd (x + ox) \<and> rd (x + ox) \<le> rd (x + rd r) \<and>
                  rd (y - rd r) \<le> rd (y + oy) \<and> rd (y + oy) \<le> rd (y + rd r) \<and>
                  rd (z - rd r) \<le> rd (z + oz) \<and> rd (z + oz) \<le> rd (z + rd r)))) \<and>
         (\<forall>k. k \<in> dom datadict_3d \<longrightarrow> ao_datadict_3d out k = datadict_3d k) \<and>
         (\<forall>k. k \<in> dom com3d_dict \<longrightarrow> ao_com3d_dict out k = com3d_dict k) \<and>
         (\<forall>k. k \<in> dom datadict \<longrightarrow> ao_datadict out k = datadict k)"
proof -
  let ?st0 = "\<lparr>as_datadict = datadict, as_datadict_3d = datadict_3d,
               as_com3d_dict = com3d_dict, train_samples_new = [], rng_pos = 0\<rparr>"
  let ?new = "comaug_new datadict_3d train [0..<m]"
  let ?old = "set train \<union> set valid \<union> dom datadict \<union> dom datadict_3d \<union> dom com3d_dict"
  from sample_COM_augmentation_ok [OF run] obtain st where
    loop: "aug_iterations rd rnd r train [0..<m] ?st0 = Inr st"
    and out: "ao_samples out = sort (train @ train_samples_new st @ valid)"
      "ao_datadict out = as_datadict st" "ao_datadict_3d out = as_datadict_3d st"
      "ao_com3d_dict out = as_com3d_dict st" "ao_train out = sort (train @ train_samples_new st)"
      "ao_valid out = valid"
    by blast
  have fresh: "comaug_tag s i \<notin> ?old" for s i
    by (rule comaug_tag_fresh [OF ids])
  then have H: "\<forall>y \<in> set train. \<forall>i \<in> set [0..<m]. comaug_tag y i \<notin> set train"
    by blast
  from aug_iterations_new [OF loop H] have new: "train_samples_new st = ?new" by simp
  have c1: "ao_valid out = valid" by (rule out)
  have c2: "ao_train out = sort (train @ ?new)" by (simp only: out new)
  have c3: "ao_samples out = sort (train @ ?new @ valid)" by (simp only: out new)
  have c4: "length ?new = m * length (filter (labeled datadict_3d) train)"
    by (simp add: comaug_new_length)
  have c5: "distinct train \<longrightarrow> distinct ?new"
    using comaug_new_distinct [OF _ distinct_upt] by blast
  have c6: "set ?new \<inter> ?old = {}"
  proof -
    have "t \<notin> ?old" if "t \<in> set ?new" for t
    proof -
      from that obtain s i where "t = comaug_tag s i"
        unfolding comaug_new_set by auto
      with fresh [of s i] show ?thesis by simp
    qed
    then show ?thesis by blast
  qed
  have c7: "\<forall>s \<in> set train. \<forall>i < m. labeled datadict_3d s \<longrightarrow>
            comaug_tag s i \<in> set (ao_train out) \<and>
            count_list ?new (comaug_tag s i) = count_list train s \<and>
            ao_datadict_3d out (comaug_tag s i) = datadict_3d s \<and>
            ao_datadict out (comaug_tag s i) = datadict s \<and>
            (\<forall>x y z. com3d_dict s = Some (Num x, Num y, Num z) \<longrightarrow>
               (\<exists>ox oy oz. \<bar>ox\<bar> \<le> rd r \<and> \<bar>oy\<bar> \<le> rd r \<and> \<bar>oz\<bar> \<le> rd r \<and>
                  ao_com3d_dict out (comaug_tag s i) =
                    Some (Num (rd (x + ox)), Num (rd (y + oy)), Num (rd (z + oz))) \<and>
                  rd (x - rd r) \<le> rd (x + ox) \<and> rd (x + ox) \<le> rd (x + rd r) \<and>
                  rd (y - rd r) \<le> rd (y + oy) \<and> rd (y + oy) \<le> rd (y + rd r) \<and>
                  rd (z - rd r) \<le> rd (z + oz) \<and> rd (z + oz) \<le> rd (z + rd r)))"
  proof (intro ballI allI impI)
    fix s i
    assume s: "s \<in> set train" and i: "i < m" and lab: "labeled datadict_3d s"
    from i have ii: "i \<in> set [0..<m]" by simp
    from lab have lab0: "labeled (as_datadict_3d ?st0) s" by simp
    from aug_iterations_entry [OF loop H distinct_upt s lab0 ii] obtain n where
      e1: "as_datadict_3d st (comaug_tag s i) = datadict_3d s"
      and e2: "as_datadict st (comaug_tag s i) = datadict s"
      and e3: "as_com3d_dict st (comaug_tag s i) =
                 map_option (perturb_com rd r (rnd n, rnd (n + 1), rnd (n + 2))) (com3d_dict s)"
      by auto
    have m1: "comaug_tag s i \<in> set (ao_train out)"
      using s lab ii unfolding c2 by (auto simp: comaug_new_set)
    have "count_list ?new (comaug_tag s i) =
        (if i \<in> set [0..<m] then count_list train s else 0)"
      by (rule comaug_new_count [OF distinct_upt lab])
    with ii have m2: "count_list ?new (comaug_tag s i) = count_list train s"
      by (simp only: if_True)
    have m4: "\<forall>x y z. com3d_dict s = Some (Num x, Num y, Num z) \<longrightarrow>
               (\<exists>ox oy oz. \<bar>ox\<bar> \<le> rd r \<and> \<bar>oy\<bar> \<le> rd r \<and> \<bar>oz\<bar> \<le> rd r \<and>
                  ao_com3d_dict out (comaug_tag s i) =
                    Some (Num (rd (x + ox)), Num (rd (y + oy)), Num (rd (z + oz))) \<and>
                  rd (x - rd r) \<le> rd (x + ox) \<and> rd (x + ox) \<le> rd (x + rd r) \<and>
                  rd (y - rd r) \<le> rd (y + oy) \<and> rd (y + oy) \<le> rd (y + rd r) \<and>
                  rd (z - rd r) \<le> rd (z + oz) \<and> rd (z + oz) \<le> rd (z + rd r))"
    proof (intro allI impI)
      fix x y z
      assume c: "com3d_dict s = Some (Num x, Num y, Num z)"
      from rng have u: "0 \<le> rnd n" "rnd n < 1" "0 \<le> rnd (n + 1)" "rnd (n + 1) < 1"
        "0 \<le> rnd (n + 2)" "rnd (n + 2) < 1" by simp_all
      have v: "ao_com3d_dict out (comaug_tag s i) =
          Some (Num (rd (x + com_aug rd r (rnd n))), Num (rd (y + com_aug rd r (rnd (n + 1)))),
                Num (rd (z + com_aug rd r (rnd (n + 2)))))"
        unfolding out e3 c by (simp only: option.map perturb_com_finite)
      have b: "\<bar>com_aug rd r (rnd n)\<bar> \<le> rd r"
        "\<bar>com_aug rd r (rnd (n + 1))\<bar> \<le> rd r"
        "\<bar>com_aug rd r (rnd (n + 2))\<bar> \<le> rd r"
        by (rule com_aug_bound [OF mn idem odd dbl r0 u(1) u(2)],
            rule com_aug_bound [OF mn idem odd dbl r0 u(3) u(4)],
            rule com_aug_bound [OF mn idem odd dbl r0 u(5) u(6)])
      note i1 = rounded_sum_interval [OF mn b(1), of x]
      note i2 = rounded_sum_interval [OF mn b(2), of y]
      note i3 = rounded_sum_interval [OF mn b(3), of z]
      from b v i1 i2 i3
      have "\<bar>com_aug rd r (rnd n)\<bar> \<le> rd r \<and> \<bar>com_aug rd r (rnd (n + 1))\<bar> \<le> rd r \<and>
          \<bar>com_aug rd r (rnd (n + 2))\<bar> \<le> rd r \<and>
          ao_com3d_dict out (comaug_tag s i) =
            Some (Num (rd (x + com_aug rd r (rnd n))), Num (rd (y + com_aug rd r (rnd (n + 1)))),
                  Num (rd (z + com_aug rd r (rnd (n + 2))))) \<and>
          rd (x - rd r) \<le> rd (x + com_aug rd r (rnd n)) \<and>
          rd (x + com_aug rd r (rnd n)) \<le> rd (x + rd r) \<and>
          rd (y - rd r) \<le> rd (y + com_aug rd r (rnd (n + 1))) \<and>
          rd (y + com_aug rd r (rnd (n + 1))) \<le> rd (y + rd r) \<and>
          rd (z - rd r) \<le> rd (z + com_aug rd r (rnd (n + 2))) \<and>
          rd (z + com_aug rd r (rnd (n + 2))) \<le> rd (z + rd r)"
        by (intro conjI)
      then show "\<exists>ox oy oz. \<bar>ox\<bar> \<le> rd r \<and> \<bar>oy\<bar> \<le> rd r \<and> \<bar>oz\<bar> \<le> rd r \<and>
                  ao_com3d_dict out (comaug_tag s i) =
                    Some (Num (rd (x + ox)), Num (rd (y + oy)), Num (rd (z + oz))) \<and>
                  rd (x - rd r) \<le> rd (x + ox) \<and> rd (x + ox) \<le> rd (x + rd r) \<and>
                  rd (y - rd r) \<le> rd (y + oy) \<and> rd (y + oy) \<le> rd (y + rd r) \<and>
                  rd (z - rd r) \<le> rd (z + oz) \<and> rd (z + oz) \<le> rd (z + rd r)"
        by (intro exI)
    qed
    from m1 m2 e1 e2 m4
    show "comaug_tag s i \<in> set (ao_train out) \<and>
            count_list ?new (comaug_tag s i) = count_list train s \<and>
            ao_datadict_3d out (comaug_tag s i) = datadict_3d s \<and>
            ao_datadict out (comaug_tag s i) = datadict s \<and>
            (\<forall>x y z. com3d_dict s = Some (Num x, Num y, Num z) \<longrightarrow>
               (\<exists>ox oy oz. \<bar>ox\<bar> \<le> rd r \<and> \<bar>oy\<bar> \<le> rd r \<and> \<bar>oz\<bar> \<le> rd r \<and>
                  ao_com3d_dict out (comaug_tag s i) =
                    Some (Num (rd (x + ox)), Num (rd (y + oy)), Num (rd (z + oz))) \<and>
                  rd (x - rd r) \<le> rd (x + ox) \<and> rd (x + ox) \<le> rd (x + rd r) \<and>
                  rd (y - rd r) \<le> rd (y + oy) \<and> rd (y + oy) \<le> rd (y + rd r) \<and>
                  rd (z - rd r) \<le> rd (z + oz) \<and> rd (z + oz) \<le> rd (z + rd r)))"
      unfolding out by (intro conjI)
  qed
  have old: "as_datadict_3d st k = datadict_3d k \<and> as_com3d_dict st k = com3d_dict k \<and>
             as_datadict st k = datadict k"
    if "k \<in> dom datadict \<union> dom datadict_3d \<union> dom com3d_dict" for k
  proof -
    have "k \<noteq> comaug_tag s i" for s i
    proof
      assume k: "k = comaug_tag s i"
      from that have "k \<in> ?old" by blast
      with k fresh [of s i] show False by simp
    qed
    then have "\<forall>s \<in> set train. \<forall>i \<in> set [0..<m]. k \<noteq> comaug_tag s i"
      by blast
    from aug_iterations_other [OF loop this] show ?thesis by simp
  qed
  have c8: "\<forall>k. k \<in> dom datadict_3d \<longrightarrow> ao_datadict_3d out k = datadict_3d k"
    using old unfolding out by blast
  have c9: "\<forall>k. k \<in> dom com3d_dict \<longrightarrow> ao_com3d_dict out k = com3d_dict k"
    using old unfolding out by blast
  have c10: "\<forall>k. k \<in> dom datadict \<longrightarrow> ao_datadict out k = datadict k"
    using old unfolding out by blast
  from c1 c2 c3 c4 c5 c6 c7 c8 c9 c10 show ?thesis by (intro conjI)
qed

lemma example_rnd_range: "\<forall>n. 0 \<le> example_rnd n \<and> example_rnd n < 1"
proof
  fix n
  have "n mod 4 < (4 :: nat)" by simp
  then have "real (n mod 4) < real 4" by (simp only: of_nat_less_iff)
  then have "real (n mod 4) < 16" by simp
  then show "0 \<le> example_rnd n \<and> example_rnd n < 1" by (simp add: example_rnd_def)
qed

lemma example_aug_run:
  "sample_COM_augmentation rd64 example_rnd example_aug_datadict example_aug_pose3d
     example_aug_com3d [''0_5'', ''0_6''] [''0_9''] 20 2 = Inr example_aug_out"
proof -
  have u: "[0..<2] = [0, 1]" by (simp add: upt_rec)
  have g: "perturb_com rd64 20 (example_rnd 0, example_rnd 1, example_rnd 2)
     (Num 100, Num 200, Num 300) = (Num 80, Num (365 / 2), Num 285)"
    by (simp add: example_rnd_def com_aug_def rd64_eval)
  have g1: "perturb_com rd64 20 (example_rnd 0, example_rnd (Suc 0), example_rnd (Suc (Suc 0)))
     (Num 100, Num 200, Num 300) = (Num 80, Num (365 / 2), Num 285)"
  proof -
    have "Suc 0 = 1" and "Suc (Suc 0) = 2" by simp_all
    with g show ?thesis by (simp only:)
  qed
  have g2: "perturb_com rd64 20 (example_rnd 3, example_rnd 4, example_rnd 5)
     (Num 100, Num 200, Num 300) = (Num (175 / 2), Num 180, Num (565 / 2))"
    by (simp add: example_rnd_def com_aug_def rd64_eval)
  show ?thesis
    unfolding sample_COM_augmentation_def u
    by (simp add: augment_sample_def example_aug_out_def
        example_aug_datadict_def example_aug_pose3d_def example_aug_com3d_def g g1 g2
        del: perturb_com.simps
        add: comaug_tag_def isnan_all_def str_nat.simps digit_char_def)
qed

lemma example_aug_plain: "list_all plain_id [''0_5'', ''0_6'', ''0_9'']"
  by (simp add: plain_id_def is_digit_def)

lemma example_aug_dom:
  "dom example_aug_datadict = {''0_5'', ''0_6'', ''0_9''}"
  "dom example_aug_pose3d = {''0_5'', ''0_6'', ''0_9''}"
  "dom example_aug_com3d = {''0_5'', ''0_6'', ''0_9''}"
  by (auto simp: example_aug_datadict_def example_aug_pose3d_def example_aug_com3d_def)

theorem com_augmentation_adds_witness:
  "sample_COM_augmentation rd64 example_rnd example_aug_datadict example_aug_pose3d
     example_aug_com3d [''0_5'', ''0_6''] [''0_9''] 20 2 = Inr example_aug_out \<and>
   (\<forall>n. 0 \<le> example_rnd n \<and> example_rnd n < 1) \<and>
   (0 :: real) \<le> 20 \<and>
   mono rd64 \<and>
   (\<forall>x. rd64 (rd64 x) = rd64 x) \<and>
   (\<forall>x. rd64 (- x) = - rd64 x) \<and>
   rd64 (20 * 2) = rd64 20 * 2 \<and>
   rd64 20 = 20 \<and>
   rd64 (1 / 10) = 3602879701896397 / 36028797018963968 \<and>
   list_all plain_id [''0_5'', ''0_6'', ''0_9''] \<and>
   dom example_aug_datadict = {''0_5'', ''0_6'', ''0_9''} \<and>
   dom example_aug_pose3d = {''0_5'', ''0_6'', ''0_9''} \<and>
   dom example_aug_com3d = {''0_5'', ''0_6'', ''0_9''} \<and>
   ao_valid example_aug_out = [''0_9''] \<and>
   ao_train example_aug_out = [''0_5'', ''0_5-comaug0'', ''0_5-comaug1'', ''0_6''] \<and>
   labeled example_aug_pose3d ''0_5'' \<and> \<not> labeled example_aug_pose3d ''0_6'' \<and>
   comaug_tag ''0_5'' 1 = ''0_5-comaug1'' \<and>
   count_list (comaug_new example_aug_pose3d [''0_5'', ''0_6''] [0..<2]) (comaug_tag ''0_5'' 1) = 1 \<and>
   ao_datadict_3d example_aug_out (comaug_tag ''0_5'' 1) = example_aug_pose3d ''0_5'' \<and>
   example_aug_com3d ''0_5'' = Some (Num 100, Num 200, Num 300) \<and>
   ao_com3d_dict example_aug_out ''0_5-comaug1'' =
     Some (Num (175 / 2), Num 180, Num (565 / 2)) \<and>
   ao_datadict_3d example_aug_out ''0_5'' = example_aug_pose3d ''0_5'' \<and>
   ao_com3d_dict example_aug_out ''0_5'' = example_aug_com3d ''0_5''"
proof -
  have r0: "(0 :: real) \<le> 20" by simp
  have dbl: "rd64 (20 * 2) = rd64 20 * 2" by (simp add: rd64_eval)
  have r20: "rd64 20 = 20" by (simp add: rd64_eval)
  have ids: "\<forall>k \<in> set [''0_5'', ''0_6''] \<union> set [''0_9''] \<union> dom example_aug_datadict \<union>
      dom example_aug_pose3d \<union> dom example_aug_com3d. plain_id k"
    using example_aug_plain unfolding example_aug_dom by simp
  note t = com_augmentation_adds [OF example_aug_run example_rnd_range r0 rd64_mono
      rd64_idem rd64_odd dbl ids]
  have l5: "labeled example_aug_pose3d ''0_5''" and l6: "\<not> labeled example_aug_pose3d ''0_6''"
    by (simp_all add: labeled_def example_aug_pose3d_def isnan_all_def)
  have tag: "comaug_tag ''0_5'' 1 = ''0_5-comaug1''"
    by (simp add: comaug_tag_def str_nat.simps digit_char_def)
  from t have v: "ao_valid example_aug_out = [''0_9'']" by (elim conjE)
  have tr: "ao_train example_aug_out = [''0_5'', ''0_5-comaug0'', ''0_5-comaug1'', ''0_6'']"
    by (simp add: example_aug_out_def)
  from t have "\<forall>s \<in> set [''0_5'', ''0_6'']. \<forall>i < 2. labeled example_aug_pose3d s \<longrightarrow>
            comaug_tag s i \<in> set (ao_train example_aug_out) \<and>
            count_list (comaug_new example_aug_pose3d [''0_5'', ''0_6''] [0..<2]) (comaug_tag s i) =
              count_list [''0_5'', ''0_6''] s \<and>
            ao_datadict_3d example_aug_out (comaug_tag s i) = example_aug_pose3d s \<and>
            ao_datadict example_aug_out (comaug_tag s i) = example_aug_datadict s \<and>
            (\<forall>x y z. example_aug_com3d s = Some (Num x, Num y, Num z) \<longrightarrow>
               (\<exists>ox oy oz. \<bar>ox\<bar> \<le> rd64 20 \<and> \<bar>oy\<bar> \<le> rd64 20 \<and> \<bar>oz\<bar> \<le> rd64 20 \<and>
                  ao_com3d_dict example_aug_out (comaug_tag s i) =
                    Some (Num (rd64 (x + ox)), Num (rd64 (y + oy)), Num (rd64 (z + oz))) \<and>
                  rd64 (x - rd64 20) \<le> rd64 (x + ox) \<and> rd64 (x + ox) \<le> rd64 (x + rd64 20) \<and>
                  rd64 (y - rd64 20) \<le> rd64 (y + oy) \<and> rd64 (y + oy) \<le> rd64 (y + rd64 20) \<and>
                  rd64 (z - rd64 20) \<le> rd64 (z + oz) \<and> rd64 (z + oz) \<le> rd64 (z + rd64 20)))"
    by (elim conjE)
  from this [rule_format, of "''0_5''" 1] l5
  have p: "ao_datadict_3d example_aug_out (comaug_tag ''0_5'' 1) = example_aug_pose3d ''0_5''"
    and cnt: "count_list (comaug_new example_aug_pose3d [''0_5'', ''0_6''] [0..<2])
        (comaug_tag ''0_5'' 1) = 1"
    by simp_all
  have c: "example_aug_com3d ''0_5'' = Some (Num 100, Num 200, Num 300)"
    by (simp add: example_aug_com3d_def)
  have c': "ao_com3d_dict example_aug_out ''0_5-comaug1'' =
     Some (Num (175 / 2), Num 180, Num (565 / 2))"
    by (simp add: example_aug_out_def)
  from t have "\<forall>k. k \<in> dom example_aug_pose3d \<longrightarrow>
      ao_datadict_3d example_aug_out k = example_aug_pose3d k"
    by (elim conjE)
  from this [rule_format, of "''0_5''"]
  have o1: "ao_datadict_3d example_aug_out ''0_5'' = example_aug_pose3d ''0_5''"
    by (simp add: example_aug_pose3d_def)
  from t have "\<forall>k. k \<in> dom example_aug_com3d \<longrightarrow>
      ao_com3d_dict example_aug_out k = example_aug_com3d k"
    by (elim conjE)
  from this [rule_format, of "''0_5''"]
  have o2: "ao_com3d_dict example_aug_out ''0_5'' = example_aug_com3d ''0_5''"
    by (simp add: example_aug_com3d_def)
  from example_aug_run example_rnd_range r0 rd64_mono rd64_idem rd64_odd dbl
    r20 rd64_tenth example_aug_plain example_aug_dom v tr l5 l6 tag cnt p c c' o1 o2
  show ?thesis by (intro conjI)
qed

subsection \<open>Examination of the cached volumes\<close>

lemma decode_sample_id: "decode_sample (sample_id i f) = Inr (int i, str_int f)"
  by (simp add: decode_sample_def split_on_sample_id py_int_str_nat)

lemma decode_example: "decode_sample ''0_5'' = Inr (0, ''5'')"
  using decode_sample_id [of 0 5]
  by (simp add: sample_id_def str_int_def str_nat.simps digit_char_def)

lemma py_int_example: "py_int ''0'' = Inr 0"
  using py_int_str_nat [of 0] by (simp add: str_nat.simps digit_char_def)

text \<open>
  C4, as stated, fails: the target file of sample \<^verbatim>\<open>0_5\<close> is absent (the targets directory
  holds another file), yet the sample is not reported missing.
\<close>

theorem examine_targets_counterexample:
  "[''datasets'', ''npy_volumes'', ''s1-d1'', ''targets'', ''0_5.npy''] \<notin> set example_fs \<and>
   examine_npy example_fs (rat7m_folders [''datasets''] [''s1-d1'']) [''0_5''] =
     Inr \<lparr>er_fs = example_fs,
          er_npydir = [0 \<mapsto> [''datasets'', ''npy_volumes'', ''s1-d1'']],
          er_missing_npydir = Map.empty,
          er_missing_samples = []\<rparr>"
proof
  show "[''datasets'', ''npy_volumes'', ''s1-d1'', ''targets'', ''0_5.npy''] \<notin> set example_fs"
    by (simp add: example_fs_def)
  have a: "examine_exps 0 (rat7m_folders [''datasets''] [''s1-d1''])
             \<lparr>ex_fs = example_fs, ex_npydir = Map.empty, ex_missing_npydir = Map.empty\<rparr> =
           Inr \<lparr>ex_fs = example_fs,
                ex_npydir = [0 \<mapsto> [''datasets'', ''npy_volumes'', ''s1-d1'']],
                ex_missing_npydir = Map.empty\<rparr>"
    by (simp add: rat7m_folders_def examine_exp_def NPY_DIRNAMES_def listdir_def example_fs_def)
  show "examine_npy example_fs (rat7m_folders [''datasets''] [''s1-d1'']) [''0_5''] =
     Inr \<lparr>er_fs = example_fs,
          er_npydir = [0 \<mapsto> [''datasets'', ''npy_volumes'', ''s1-d1'']],
          er_missing_npydir = Map.empty,
          er_missing_samples = []\<rparr>"
    unfolding examine_npy_def a
    by (simp add: py_int_example decode_example sample_file_def example_fs_def)
qed

lemma listdir_empty_iff: "listdir fs p = [] \<longleftrightarrow> (\<forall>q \<in> set fs. q = [] \<or> butlast q \<noteq> p)"
  by (auto simp: listdir_def filter_empty_conv)

lemma grown_refl: "grown folder D fs fs"
  by (simp add: grown_def)

lemma grown_trans:
  assumes "grown folder D fs fs1" and "grown folder D' fs1 fs2"
  shows "grown folder (D \<union> D') fs fs2"
  using assms unfolding grown_def by blast

lemma grown_mono: "grown folder D fs fs' \<Longrightarrow> D \<subseteq> D' \<Longrightarrow> grown folder D' fs fs'"
  unfolding grown_def by blast

lemma grown_long:
  assumes "grown folder D fs fs'" and "length folder + 1 < length p"
  shows "p \<in> set fs' \<longleftrightarrow> p \<in> set fs"
proof
  assume p: "p \<in> set fs'"
  with assms(1) consider "p \<in> set fs" | n where "n \<le> length folder" "p = take n folder"
    | d where "p = folder @ [d]"
    unfolding grown_def by blast
  then show "p \<in> set fs"
  proof cases
    case 1
    then show ?thesis .
  next
    case 2
    then have "length p \<le> length folder" by simp
    with assms(2) show ?thesis by simp
  next
    case 3
    with assms(2) show ?thesis by simp
  qed
next
  assume "p \<in> set fs"
  with assms(1) show "p \<in> set fs'" unfolding grown_def by blast
qed

lemma grown_dir:
  assumes "grown folder D fs fs'" and "d \<notin> D"
  shows "folder @ [d] \<in> set fs' \<longleftrightarrow> folder @ [d] \<in> set fs"
proof
  assume p: "folder @ [d] \<in> set fs'"
  with assms(1) consider "folder @ [d] \<in> set fs"
    | n where "n \<le> length folder" "folder @ [d] = take n folder"
    | d' where "d' \<in> D" "folder @ [d] = folder @ [d']"
    unfolding grown_def by blast
  then show "folder @ [d] \<in> set fs"
  proof cases
    case 1
    then show ?thesis .
  next
    case 2
    then have "length (folder @ [d]) = length (take n folder)" by simp
    with 2(1) show ?thesis by simp
  next
    case 3
    with assms(2) show ?thesis by simp
  qed
next
  assume "folder @ [d] \<in> set fs"
  with assms(1) show "folder @ [d] \<in> set fs'" unfolding grown_def by blast
qed

lemma grown_listdir:
  assumes "grown folder D fs fs'" and "length folder < length p"
  shows "listdir fs' p = [] \<longleftrightarrow> listdir fs p = []"
proof -
  have "q \<in> set fs' \<longleftrightarrow> q \<in> set fs" if "q \<noteq> []" "butlast q = p" for q
  proof -
    from that have "length q = length p + 1" by (cases q rule: rev_cases) auto
    with assms(2) have "length folder + 1 < length q" by simp
    from grown_long [OF assms(1) this] show ?thesis .
  qed
  then show ?thesis unfolding listdir_empty_iff by blast
qed

lemma grown_other_folder:
  assumes "grown folder D fs fs'" and "length g = length folder" and "g \<noteq> folder"
  shows "g \<in> set fs' \<longleftrightarrow> g \<in> set fs"
    and "g @ [d] \<in> set fs' \<longleftrightarrow> g @ [d] \<in> set fs"
proof -
  show "g \<in> set fs' \<longleftrightarrow> g \<in> set fs"
  proof
    assume "g \<in> set fs'"
    with assms(1) consider "g \<in> set fs" | n where "n \<le> length folder" "g = take n folder"
      | d' where "g = folder @ [d']"
      unfolding grown_def by blast
    then show "g \<in> set fs"
    proof cases
      case 1
      then show ?thesis .
    next
      case 2
      with assms(2) have "n = length folder" by simp
      with 2 assms(3) show ?thesis by simp
    next
      case 3
      with assms(2) show ?thesis by simp
    qed
  next
    assume "g \<in> set fs"
    with assms(1) show "g \<in> set fs'" unfolding grown_def by blast
  qed
  show "g @ [d] \<in> set fs' \<longleftrightarrow> g @ [d] \<in> set fs"
  proof
    assume "g @ [d] \<in> set fs'"
    with assms(1) consider "g @ [d] \<in> set fs"
      | n where "n \<le> length folder" "g @ [d] = take n folder"
      | d' where "g @ [d] = folder @ [d']"
      unfolding grown_def by blast
    then show "g @ [d] \<in> set fs"
    proof cases
      case 1
      then show ?thesis .
    next
      case 2
      then have "length (g @ [d]) = length (take n folder)" by simp
      with 2(1) assms(2) show ?thesis by simp
    next
      case 3
      with assms(3) show ?thesis by simp
    qed
  next
    assume "g @ [d] \<in> set fs"
    with assms(1) show "g @ [d] \<in> set fs'" unfolding grown_def by blast
  qed
qed

lemma grown_dir_missing:
  assumes "grown folder D fs fs'" and "length g = length folder" and "g \<noteq> folder"
  shows "dir_missing fs' g = dir_missing fs g"
proof -
  have "listdir fs' (g @ [d]) = [] \<longleftrightarrow> listdir fs (g @ [d]) = []" for d
    using grown_listdir [OF assms(1), of "g @ [d]"] assms(2) by simp
  with grown_other_folder [OF assms] show ?thesis
    by (simp add: dir_missing_def list_ex_iff)
qed

lemma makedirs_grown:
  assumes "makedirs fs (folder @ [d]) ok = Inr fs'"
  shows "grown folder {d} fs fs'"
proof (cases "folder @ [d] \<in> set fs")
  case True
  with assms have "fs' = fs" by (simp add: makedirs_def split: if_splits)
  then show ?thesis by (simp add: grown_refl)
next
  case False
  define added where "added = map (\<lambda>n. take n (folder @ [d])) [1..<Suc (length (folder @ [d]))]"
  from False assms have fs': "fs' = fs @ filter (\<lambda>q. q \<notin> set fs) added"
    unfolding added_def makedirs_def by (simp only: if_False sum.inject)
  have "q \<in> set fs \<or> (\<exists>n \<le> length folder. q = take n folder) \<or> q = folder @ [d]"
    if "q \<in> set fs'" for q
  proof (cases "q \<in> set fs")
    case True
    then show ?thesis by simp
  next
    case False
    with that have "q \<in> set added" unfolding fs' by simp
    then obtain n where q: "q = take n (folder @ [d])"
      unfolding added_def set_map by blast
    show ?thesis
    proof (cases "n \<le> length folder")
      case True
      with q have "q = take n folder" by simp
      with True show ?thesis by blast
    next
      case False
      with q have "q = folder @ [d]" by simp
      then show ?thesis by simp
    qed
  qed
  moreover have "set fs \<subseteq> set fs'" unfolding fs' by simp
  ultimately show ?thesis unfolding grown_def by blast
qed

lemma make_all_grown:
  "make_all fs folder ds = Inr fs' \<Longrightarrow> grown folder (set ds) fs fs'"
proof (induction ds arbitrary: fs)
  case Nil
  then show ?case by (simp add: grown_refl)
next
  case (Cons d ds)
  from Cons.prems obtain fs1 where m: "makedirs fs (folder @ [d]) False = Inr fs1"
    and r: "make_all fs1 folder ds = Inr fs'"
    by (auto split: sum.splits)
  from grown_trans [OF makedirs_grown [OF m] Cons.IH [OF r]] show ?case by simp
qed

lemma examine_dirs_grown:
  "examine_dirs fs folder ds flag = Inr (fs', flag') \<Longrightarrow> distinct ds \<Longrightarrow>
   grown folder (set ds) fs fs' \<and>
   (flag' \<longleftrightarrow> flag \<or> list_ex (\<lambda>d. folder @ [d] \<notin> set fs \<or> listdir fs (folder @ [d]) = []) ds)"
proof (induction ds arbitrary: fs flag)
  case Nil
  then show ?case by (simp add: grown_refl)
next
  case (Cons d ds)
  from Cons.prems(2) have dd: "distinct ds" and dn: "d \<notin> set ds" by auto
  show ?case
  proof (cases "folder @ [d] \<notin> set fs \<or> listdir fs (folder @ [d]) = []")
    case True
    with Cons.prems(1) obtain fs1 where m: "makedirs fs (folder @ [d]) True = Inr fs1"
      and r: "examine_dirs fs1 folder ds True = Inr (fs', flag')"
      by (auto split: sum.splits)
    from Cons.IH [OF r dd] have g: "grown folder (set ds) fs1 fs'" and f: "flag'" by simp_all
    from grown_trans [OF makedirs_grown [OF m] g] True f show ?thesis by simp
  next
    case False
    with Cons.prems(1) have r: "examine_dirs fs folder ds flag = Inr (fs', flag')" by simp
    from Cons.IH [OF r dd] False grown_mono [of folder "set ds" fs fs' "set (d # ds)"]
    show ?thesis by auto
  qed
qed

lemma examine_exp_facts:
  assumes "examine_exp e folder st = Inr st'"
  shows "grown folder UNIV (ex_fs st) (ex_fs st')"
    and "ex_npydir st' = (ex_npydir st)(int e \<mapsto> folder)"
    and "ex_missing_npydir st' =
           (if dir_missing (ex_fs st) folder then (ex_missing_npydir st)(int e \<mapsto> folder)
            else ex_missing_npydir st)"
proof -
  have d: "distinct NPY_DIRNAMES" by (simp add: NPY_DIRNAMES_def)
  show "grown folder UNIV (ex_fs st) (ex_fs st')"
  proof (cases "folder \<in> set (ex_fs st)")
    case False
    with assms obtain fs' where "make_all (ex_fs st) folder NPY_DIRNAMES = Inr fs'"
      and "ex_fs st' = fs'"
      by (auto simp: examine_exp_def split: sum.splits)
    with make_all_grown [of "ex_fs st" folder NPY_DIRNAMES fs'] show ?thesis
      by (auto intro: grown_mono)
  next
    case True
    with assms obtain fs' flag where
      "examine_dirs (ex_fs st) folder NPY_DIRNAMES False = Inr (fs', flag)" and "ex_fs st' = fs'"
      by (auto simp: examine_exp_def split: sum.splits)
    with examine_dirs_grown [of "ex_fs st" folder NPY_DIRNAMES False fs' flag, OF _ d]
    show ?thesis by (auto intro: grown_mono)
  qed
  show "ex_npydir st' = (ex_npydir st)(int e \<mapsto> folder)"
    using assms by (auto simp: examine_exp_def split: sum.splits if_splits)
  show "ex_missing_npydir st' =
           (if dir_missing (ex_fs st) folder then (ex_missing_npydir st)(int e \<mapsto> folder)
            else ex_missing_npydir st)"
  proof (cases "folder \<in> set (ex_fs st)")
    case False
    with assms show ?thesis
      by (auto simp: examine_exp_def dir_missing_def split: sum.splits)
  next
    case True
    with assms obtain fs' flag where
      x: "examine_dirs (ex_fs st) folder NPY_DIRNAMES False = Inr (fs', flag)"
      and m: "ex_missing_npydir st' =
        (if flag then (ex_missing_npydir st)(int e \<mapsto> folder) else ex_missing_npydir st)"
      by (auto simp: examine_exp_def split: sum.splits)
    from examine_dirs_grown [OF x d] True have "flag \<longleftrightarrow> dir_missing (ex_fs st) folder"
      by (simp add: dir_missing_def)
    with m show ?thesis by simp
  qed
qed

lemma grown_many_refl: "grown_many folders fs fs"
  by (simp add: grown_many_def)

lemma grown_many_one:
  assumes "grown folder D fs fs'"
  shows "grown_many [folder] fs fs'"
  using assms unfolding grown_def grown_many_def by auto

lemma grown_many_trans:
  assumes "grown_many A fs fs1" and "grown_many B fs1 fs2"
  shows "grown_many (A @ B) fs fs2"
  using assms unfolding grown_many_def by (auto; blast)

lemma grown_many_file:
  assumes "grown_many folders fs fs'" and "\<forall>f \<in> set folders. length f = L"
    and "length p = L + 2"
  shows "p \<in> set fs' \<longleftrightarrow> p \<in> set fs"
proof
  assume "p \<in> set fs'"
  with assms(1) consider "p \<in> set fs"
    | folder n where "folder \<in> set folders" "n \<le> length folder" "p = take n folder"
    | folder d where "folder \<in> set folders" "p = folder @ [d]"
    unfolding grown_many_def by blast
  then show "p \<in> set fs"
  proof cases
    case 1
    then show ?thesis .
  next
    case 2
    with assms(2) have "length p \<le> L" by auto
    with assms(3) show ?thesis by simp
  next
    case 3
    with assms(2) have "length p = L + 1" by auto
    with assms(3) show ?thesis by simp
  qed
next
  assume "p \<in> set fs"
  with assms(1) show "p \<in> set fs'" unfolding grown_many_def by blast
qed

lemma examine_exps_facts:
  "examine_exps e rest st = Inr st' \<Longrightarrow> \<forall>f \<in> set rest. length f = L \<Longrightarrow> distinct rest \<Longrightarrow>
   \<forall>k \<ge> int e. k \<notin> dom (ex_missing_npydir st) \<Longrightarrow>
   grown_many rest (ex_fs st) (ex_fs st') \<and>
   (\<forall>j < length rest. ex_npydir st' (int (e + j)) = Some (rest ! j)) \<and>
   (\<forall>j < length rest.
      int (e + j) \<in> dom (ex_missing_npydir st') \<longleftrightarrow> dir_missing (ex_fs st) (rest ! j)) \<and>
   (\<forall>k < int e. ex_npydir st' k = ex_npydir st k \<and>
      ex_missing_npydir st' k = ex_missing_npydir st k)"
proof (induction rest arbitrary: e st)
  case Nil
  then show ?case by (simp add: grown_many_refl)
next
  case (Cons folder rest)
  from Cons.prems(1) obtain st1 where
    x: "examine_exp e folder st = Inr st1"
    and r: "examine_exps (Suc e) rest st1 = Inr st'"
    by (auto split: sum.splits)
  note f = examine_exp_facts [OF x]
  from Cons.prems(2) have lf: "length folder = L" and lr: "\<forall>f \<in> set rest. length f = L"
    by simp_all
  from Cons.prems(3) have dr: "distinct rest" and nf: "folder \<notin> set rest" by simp_all
  have fresh1: "\<forall>k \<ge> int (Suc e). k \<notin> dom (ex_missing_npydir st1)"
  proof (intro allI impI)
    fix k
    assume k: "int (Suc e) \<le> k"
    then have "int e \<le> k" and "k \<noteq> int e" by simp_all
    with Cons.prems(4) show "k \<notin> dom (ex_missing_npydir st1)"
      unfolding f(3) by (auto split: if_splits)
  qed
  from Cons.IH [OF r lr dr fresh1] have
    i1: "grown_many rest (ex_fs st1) (ex_fs st')"
    and i2: "\<forall>j < length rest. ex_npydir st' (int (Suc e + j)) = Some (rest ! j)"
    and i3: "\<forall>j < length rest.
      int (Suc e + j) \<in> dom (ex_missing_npydir st') \<longleftrightarrow> dir_missing (ex_fs st1) (rest ! j)"
    and i4: "\<forall>k < int (Suc e). ex_npydir st' k = ex_npydir st1 k \<and>
      ex_missing_npydir st' k = ex_missing_npydir st1 k"
    by blast+
  have a: "grown_many (folder # rest) (ex_fs st) (ex_fs st')"
    using grown_many_trans [OF grown_many_one [OF f(1)] i1] by simp
  have at_e: "ex_npydir st' (int e) = Some folder"
    "int e \<in> dom (ex_missing_npydir st') \<longleftrightarrow> dir_missing (ex_fs st) folder"
  proof -
    from i4 have s: "ex_npydir st' (int e) = ex_npydir st1 (int e)"
      "ex_missing_npydir st' (int e) = ex_missing_npydir st1 (int e)" by simp_all
    show "ex_npydir st' (int e) = Some folder" unfolding s f(2) by simp
    from Cons.prems(4) have "int e \<notin> dom (ex_missing_npydir st)" by simp
    then have n: "ex_missing_npydir st (int e) = None" by (simp add: dom_def)
    have "int e \<in> dom (ex_missing_npydir st') \<longleftrightarrow> ex_missing_npydir st1 (int e) \<noteq> None"
      unfolding s(2) [symmetric] by (simp add: dom_def)
    also have "\<dots> \<longleftrightarrow> dir_missing (ex_fs st) folder"
      unfolding f(3) using n by simp
    finally show "int e \<in> dom (ex_missing_npydir st') \<longleftrightarrow> dir_missing (ex_fs st) folder" .
  qed
  have b: "\<forall>j < length (folder # rest). ex_npydir st' (int (e + j)) = Some ((folder # rest) ! j)"
  proof (intro allI impI)
    fix j
    assume j: "j < length (folder # rest)"
    show "ex_npydir st' (int (e + j)) = Some ((folder # rest) ! j)"
    proof (cases j)
      case 0
      with at_e(1) show ?thesis by simp
    next
      case (Suc j')
      with j i2 show ?thesis by simp
    qed
  qed
  have c: "\<forall>j < length (folder # rest).
      int (e + j) \<in> dom (ex_missing_npydir st') \<longleftrightarrow> dir_missing (ex_fs st) ((folder # rest) ! j)"
  proof (intro allI impI)
    fix j
    assume j: "j < length (folder # rest)"
    show "int (e + j) \<in> dom (ex_missing_npydir st') \<longleftrightarrow>
        dir_missing (ex_fs st) ((folder # rest) ! j)"
    proof (cases j)
      case 0
      with at_e(2) show ?thesis by simp
    next
      case (Suc j')
      with j have j': "j' < length rest" by simp
      then have mem: "rest ! j' \<in> set rest" by simp
      with lr lf have "length (rest ! j') = length folder" by simp
      moreover from mem nf have "rest ! j' \<noteq> folder" by blast
      ultimately have "dir_missing (ex_fs st1) (rest ! j') = dir_missing (ex_fs st) (rest ! j')"
        by (rule grown_dir_missing [OF f(1)])
      with i3 j' Suc show ?thesis by simp
    qed
  qed
  have d: "\<forall>k < int e. ex_npydir st' k = ex_npydir st k \<and>
      ex_missing_npydir st' k = ex_missing_npydir st k"
  proof (intro allI impI)
    fix k
    assume k: "k < int e"
    then have "k < int (Suc e)" and "k \<noteq> int e" by simp_all
    with i4 show "ex_npydir st' k = ex_npydir st k \<and>
      ex_missing_npydir st' k = ex_missing_npydir st k"
      unfolding f(2) f(3) by simp
  qed
  from a b c d show ?case by blast
qed

lemma in_missing_dirs_set:
  "in_missing_dirs missing samples = Inr ms \<Longrightarrow>
   set ms = {s \<in> set samples. \<exists>e. py_int (hd (split_on CHR ''_'' s)) = Inr e \<and> e \<in> dom missing}"
proof (induction samples arbitrary: ms)
  case Nil
  then show ?case by simp
next
  case (Cons s samples)
  from Cons.prems obtain e ms0 where
    e: "py_int (hd (split_on CHR ''_'' s)) = Inr e"
    and r: "in_missing_dirs missing samples = Inr ms0"
    and ms: "ms = (if e \<in> dom missing then s # ms0 else ms0)"
    by (auto split: sum.splits)
  from Cons.IH [OF r] e show ?case unfolding ms by auto
qed

lemma check_files_set:
  "check_files fs npydir xs (ms, mis) = Inr (ms', mis') \<Longrightarrow>
   set ms' = set ms \<union>
     {s \<in> set xs. \<exists>e tok folder. decode_sample s = Inr (e, tok) \<and> npydir e = Some folder \<and>
        sample_file folder tok \<notin> set fs}"
proof (induction xs arbitrary: ms mis)
  case Nil
  then show ?case by simp
next
  case (Cons s xs)
  from Cons.prems obtain e tok folder where
    d: "decode_sample s = Inr (e, tok)" and n: "npydir e = Some folder"
    by (auto split: sum.splits option.splits)
  show ?case
  proof (cases "sample_file folder tok \<notin> set fs")
    case True
    with Cons.prems d n have
      "check_files fs npydir xs (ms @ [s], mis(e \<mapsto> folder)) = Inr (ms', mis')" by simp
    from Cons.IH [OF this] True d n show ?thesis by auto
  next
    case False
    with Cons.prems d n have "check_files fs npydir xs (ms, mis) = Inr (ms', mis')" by simp
    from Cons.IH [OF this] False d n show ?thesis by auto
  qed
qed

text \<open>
  C4, amended. A sample \<^verbatim>\<open>e_f\<close> of the sample list (the folders of the experiments being
  distinct paths of one depth) is reported missing exactly when the folder of its
  experiment does not exist, or one of the three directories of that folder does not exist
  or has no entry at all, or the file \<^verbatim>\<open>0_f.npy\<close> is absent from \<^verbatim>\<open>image_volumes\<close>. The
  sample's files under \<^verbatim>\<open>grid_volumes\<close> and \<^verbatim>\<open>targets\<close> are not looked for, nor is any
  file's size.
\<close>

theorem examine_reports_missing:
  assumes run: "examine_npy fs folders samples = Inr res"
    and len: "\<forall>folder \<in> set folders. length folder = L"
    and dist: "distinct folders"
    and samp: "sample_id e f \<in> set samples"
    and e: "e < length folders"
  shows "sample_id e f \<in> set (er_missing_samples res) \<longleftrightarrow>
         (folders ! e \<notin> set fs \<or>
          (\<exists>d \<in> set NPY_DIRNAMES.
             folders ! e @ [d] \<notin> set fs \<or> listdir fs (folders ! e @ [d]) = []) \<or>
          folders ! e @ [''image_volumes'', ''0_'' @ str_int f @ ''.npy''] \<notin> set fs)"
proof -
  let ?st0 = "\<lparr>ex_fs = fs, ex_npydir = Map.empty, ex_missing_npydir = Map.empty\<rparr>"
  let ?s = "sample_id e f"
  from run obtain st ms ms' missing' where
    x: "examine_exps 0 folders ?st0 = Inr st"
    and m: "in_missing_dirs (ex_missing_npydir st) samples = Inr ms"
    and c: "check_files (ex_fs st) (ex_npydir st) (remdups (filter (\<lambda>s. s \<notin> set ms) samples))
              (ms, ex_missing_npydir st) = Inr (ms', missing')"
    and res: "er_missing_samples res = sort ms'"
    by (auto simp: examine_npy_def split: sum.splits)
  have fresh: "\<forall>k \<ge> int 0. k \<notin> dom (ex_missing_npydir ?st0)" by simp
  from examine_exps_facts [OF x len dist fresh] e have
    g: "grown_many folders fs (ex_fs st)"
    and n: "ex_npydir st (int e) = Some (folders ! e)"
    and d: "int e \<in> dom (ex_missing_npydir st) \<longleftrightarrow> dir_missing fs (folders ! e)"
    by simp_all
  have py: "py_int (hd (split_on CHR ''_'' ?s)) = Inr (int e)"
    by (simp add: split_on_sample_id py_int_str_nat)
  have dec: "decode_sample ?s = Inr (int e, str_int f)" by (rule decode_sample_id)
  have in_ms: "?s \<in> set ms \<longleftrightarrow> dir_missing fs (folders ! e)"
    unfolding in_missing_dirs_set [OF m] using samp py d by simp
  from e len have "length (folders ! e) = L" by simp
  then have "length (sample_file (folders ! e) (str_int f)) = L + 2"
    by (simp add: sample_file_def)
  from grown_many_file [OF g len this] have same_file:
    "sample_file (folders ! e) (str_int f) \<in> set (ex_fs st) \<longleftrightarrow>
     sample_file (folders ! e) (str_int f) \<in> set fs" .
  have "?s \<in> set (er_missing_samples res) \<longleftrightarrow> ?s \<in> set ms'" by (simp add: res)
  also have "\<dots> \<longleftrightarrow> ?s \<in> set ms \<or>
      (?s \<notin> set ms \<and> sample_file (folders ! e) (str_int f) \<notin> set (ex_fs st))"
    unfolding check_files_set [OF c] using samp dec n by auto
  also have "\<dots> \<longleftrightarrow> dir_missing fs (folders ! e) \<or>
      sample_file (folders ! e) (str_int f) \<notin> set fs"
    unfolding in_ms same_file by blast
  finally show ?thesis
    by (simp add: dir_missing_def list_ex_iff sample_file_def)
qed

lemma example_examine_run:
  "examine_npy example_fs (rat7m_folders [''datasets''] [''s1-d1'']) [''0_5'', ''0_7''] =
     Inr \<lparr>er_fs = example_fs,
          er_npydir = [0 \<mapsto> [''datasets'', ''npy_volumes'', ''s1-d1'']],
          er_missing_npydir = [0 \<mapsto> [''datasets'', ''npy_volumes'', ''s1-d1'']],
          er_missing_samples = [''0_7'']\<rparr>"
proof -
  have a: "examine_exps 0 (rat7m_folders [''datasets''] [''s1-d1''])
             \<lparr>ex_fs = example_fs, ex_npydir = Map.empty, ex_missing_npydir = Map.empty\<rparr> =
           Inr \<lparr>ex_fs = example_fs,
                ex_npydir = [0 \<mapsto> [''datasets'', ''npy_volumes'', ''s1-d1'']],
                ex_missing_npydir = Map.empty\<rparr>"
    by (simp add: rat7m_folders_def examine_exp_def NPY_DIRNAMES_def listdir_def example_fs_def)
  have d7: "decode_sample ''0_7'' = Inr (0, ''7'')"
    using decode_sample_id [of 0 7]
    by (simp add: sample_id_def str_int_def str_nat.simps digit_char_def)
  show ?thesis
    unfolding examine_npy_def a
    by (simp add: py_int_example decode_example d7 sample_file_def example_fs_def)
qed

theorem examine_reports_missing_witness:
  "examine_npy example_fs (rat7m_folders [''datasets''] [''s1-d1'']) [''0_5'', ''0_7''] =
     Inr \<lparr>er_fs = example_fs,
          er_npydir = [0 \<mapsto> [''datasets'', ''npy_volumes'', ''s1-d1'']],
          er_missing_npydir = [0 \<mapsto> [''datasets'', ''npy_volumes'', ''s1-d1'']],
          er_missing_samples = [''0_7'']\<rparr> \<and>
   distinct (rat7m_folders [''datasets''] [''s1-d1'']) \<and>
   sample_id 0 7 = ''0_7'' \<and> sample_id 0 5 = ''0_5'' \<and>
   rat7m_folders [''datasets''] [''s1-d1''] ! 0 = [''datasets'', ''npy_volumes'', ''s1-d1''] \<and>
   [''datasets'', ''npy_volumes'', ''s1-d1'', ''image_volumes'', ''0_7.npy''] \<notin> set example_fs \<and>
   ''0_7'' \<in> set [''0_7''] \<and>
   [''datasets'', ''npy_volumes'', ''s1-d1'', ''image_volumes'', ''0_5.npy''] \<in> set example_fs \<and>
   ''0_5'' \<notin> set [''0_7'']"
proof -
  let ?folders = "rat7m_folders [''datasets''] [''s1-d1'']"
  have len: "\<forall>folder \<in> set ?folders. length folder = 3" by (simp add: rat7m_folders_def)
  have dist: "distinct ?folders" by (simp add: rat7m_folders_def)
  have id7: "sample_id 0 7 = ''0_7''" and id5: "sample_id 0 5 = ''0_5''"
    by (simp_all add: sample_id_def str_int_def str_nat.simps digit_char_def)
  have s7: "sample_id 0 7 \<in> set [''0_5'', ''0_7'']" and s5: "sample_id 0 5 \<in> set [''0_5'', ''0_7'']"
    by (simp_all add: id7 id5)
  have e: "0 < length ?folders" by (simp add: rat7m_folders_def)
  have f0: "?folders ! 0 = [''datasets'', ''npy_volumes'', ''s1-d1'']"
    by (simp add: rat7m_folders_def)
  have p7: "[''datasets'', ''npy_volumes'', ''s1-d1'', ''image_volumes'', ''0_7.npy''] \<notin> set example_fs"
    and p5: "[''datasets'', ''npy_volumes'', ''s1-d1'', ''image_volumes'', ''0_5.npy''] \<in> set example_fs"
    by (simp_all add: example_fs_def)
  from examine_reports_missing [OF example_examine_run len dist s7 e] p7
  have r7: "''0_7'' \<in> set [''0_7'']"
    by (simp add: id7 f0 str_int_def str_nat.simps digit_char_def)
  have r5: "''0_5'' \<notin> set [''0_7'']" by simp
  from example_examine_run dist id7 id5 f0 p7 r7 p5 r5 show ?thesis by (intro conjI)
qed

subsection \<open>The poses stored in the 3D-annotation mapping\<close>

lemma ran_upd_subset: "ran (m(k \<mapsto> x)) \<subseteq> insert x (ran m)"
  by (auto simp: ran_def)

lemma store_rows_ran:
  "store_rows i data3d j drawn d = Inr d' \<Longrightarrow> ran d' \<subseteq> ran d \<union> set data3d"
proof (induction drawn arbitrary: j d)
  case Nil
  then show ?case by simp
next
  case (Cons frame drawn)
  from Cons.prems have j: "j < length data3d"
    and l: "store_rows i data3d (Suc j) drawn (d(sample_id i frame \<mapsto> data3d ! j)) = Inr d'"
    by (simp_all split: if_splits)
  from j have "data3d ! j \<in> set data3d" by simp
  with ran_upd_subset [of d "sample_id i frame" "data3d ! j"]
  have "ran (d(sample_id i frame \<mapsto> data3d ! j)) \<subseteq> ran d \<union> set data3d" by blast
  with Cons.IH [OF l] show ?case by blast
qed

lemma np_index_mem: "np_index a i = Inr x \<Longrightarrow> x \<in> set a"
proof -
  assume a: "np_index a i = Inr x"
  show ?thesis
  proof (cases "0 \<le> i \<and> i < int (length a)")
    case True
    then have n: "nat i < length a" by linarith
    from a True have "x = a ! nat i" by (simp add: np_index_def)
    with nth_mem [OF n] show ?thesis by simp
  next
    case False
    with a have r: "- int (length a) \<le> i \<and> i < 0" and x: "x = a ! nat (i + int (length a))"
      by (simp_all add: np_index_def split: if_splits)
    from r have n: "nat (i + int (length a)) < length a" by linarith
    from nth_mem [OF n] x show ?thesis by simp
  qed
qed

lemma store_frames_ran:
  "store_frames a count drawn d = Inr d' \<Longrightarrow> ran d' \<subseteq> ran d \<union> set a"
proof (induction drawn arbitrary: d)
  case Nil
  then show ?case by simp
next
  case (Cons frame drawn)
  from Cons.prems obtain x where x: "np_index a frame = Inr x"
    and l: "store_frames a count drawn (d(sample_id count frame \<mapsto> x)) = Inr d'"
    by (auto split: sum.splits)
  from np_index_mem [OF x] ran_upd_subset [of d "sample_id count frame" x]
  have "ran (d(sample_id count frame \<mapsto> x)) \<subseteq> ran d \<union> set a" by blast
  with Cons.IH [OF l] show ?case by blast
qed

lemma convert_pair_array_False: "convert_pair_array False ps = Inr ps"
  by (induction ps) (simp_all add: convert_pair_pose_def)

lemma convert_pair_array_True:
  "convert_pair_array True ps = Inr qs \<Longrightarrow> \<forall>q \<in> set qs. \<exists>p \<in> set ps. pair_to_r7m p = Inr q"
proof (induction ps arbitrary: qs)
  case Nil
  then show ?case by simp
next
  case (Cons p ps)
  from Cons.prems obtain q rest where q: "pair_to_r7m p = Inr q"
    and r: "convert_pair_array True ps = Inr rest" and qs: "qs = q # rest"
    by (auto simp: convert_pair_pose_def split: sum.splits)
  from Cons.IH [OF r] q show ?case unfolding qs by auto
qed

lemma convert_pair_poses_ok:
  assumes "convert_pair_poses merge_pair pose3d1 pose3d2 count drawn d = Inr d'"
  shows "\<exists>a1 a2 d1. convert_pair_array merge_pair pose3d1 = Inr a1 \<and>
           convert_pair_array merge_pair pose3d2 = Inr a2 \<and>
           store_frames a1 count drawn d = Inr d1 \<and>
           store_frames a2 (count + 1) drawn d1 = Inr d'"
  using assms by (auto simp: convert_pair_poses_def split: sum.splits)

lemma convert_pair_poses_ran:
  assumes "convert_pair_poses merge_pair pose3d1 pose3d2 count drawn d = Inr d'"
  shows "\<exists>a1 a2. convert_pair_array merge_pair pose3d1 = Inr a1 \<and>
           convert_pair_array merge_pair pose3d2 = Inr a2 \<and>
           ran d' \<subseteq> ran d \<union> set a1 \<union> set a2"
proof -
  from convert_pair_poses_ok [OF assms] obtain a1 a2 d1 where
    c1: "convert_pair_array merge_pair pose3d1 = Inr a1"
    and c2: "convert_pair_array merge_pair pose3d2 = Inr a2"
    and s1: "store_frames a1 count drawn d = Inr d1"
    and s2: "store_frames a2 (count + 1) drawn d1 = Inr d'" by blast
  from store_frames_ran [OF s1] store_frames_ran [OF s2]
  have "ran d' \<subseteq> ran d \<union> set a1 \<union> set a2" by blast
  with c1 c2 show ?thesis by blast
qed

text \<open>Every pose the big-volume block stores is the mask of two joined poses.\<close>

lemma merge_pairs_ran:
  assumes J: "\<And>p1 p2 c. p1 \<in> ran dd \<Longrightarrow> p2 \<in> ran dd \<Longrightarrow>
      J (msk (vmin - (vmax - vmin) / 4) (vmax + (vmax - vmin) / 4) (p1 @ p2) c)"
  shows "merge_pairs msk vmin vmax cd dd v (nd, nc, samps) = Inr (nd', nc', samps') \<Longrightarrow>
    \<forall>q \<in> ran nd. J q \<Longrightarrow> \<forall>q \<in> ran nd'. J q"
proof (induction v arbitrary: nd nc samps)
  case Nil
  then show ?case by simp
next
  case (Cons p v)
  obtain vol1 vol2 where p: "p = (vol1, vol2)" by (cases p)
  from merge_pairs_Cons_ok [OF Cons.prems(1) [unfolded p]] obtain a1 a2 p1 p2 where
    l: "cd vol1 = Some a1" "cd vol2 = Some a2" "dd vol1 = Some p1" "dd vol2 = Some p2" by auto
  from l(3,4) have r: "p1 \<in> ran dd" "p2 \<in> ran dd" by (auto simp: ran_def)
  show ?case
  proof (cases "close_pair vmin vmax cd (vol1, vol2)")
    case True
    let ?q = "msk (vmin - (vmax - vmin) / 4) (vmax + (vmax - vmin) / 4)
                     ((if fl_lt (fst a1) (fst a2) then p1 else p2) @
                      (if fl_lt (fst a1) (fst a2) then p2 else p1))
                     (vec_half (vec_add a1 a2))"
    from True Cons.prems(1) have m: "merge_pairs msk vmin vmax cd dd v
        (nd(vol1 \<mapsto> ?q), nc(vol1 \<mapsto> vec_half (vec_add a1 a2)), samps @ [vol1]) =
        Inr (nd', nc', samps')"
      unfolding p merge_pairs_Cons_step [OF l] by simp
    have "J ?q" using r by (simp add: J)
    with Cons.prems(2) ran_upd_subset [of nd vol1 ?q]
    have "\<forall>q \<in> ran (nd(vol1 \<mapsto> ?q)). J q" by blast
    from Cons.IH [OF m this] show ?thesis .
  next
    case False
    with Cons.prems(1) have m: "merge_pairs msk vmin vmax cd dd v (nd, nc, samps) =
        Inr (nd', nc', samps')"
      unfolding p merge_pairs_Cons_step [OF l] by simp
    from Cons.IH [OF m Cons.prems(2)] show ?thesis .
  qed
qed

lemma big_volume_loop_ran:
  assumes J: "\<And>p1 p2 c. p1 \<in> ran dd \<Longrightarrow> p2 \<in> ran dd \<Longrightarrow>
      J (msk (vmin - (vmax - vmin) / 4) (vmax + (vmax - vmin) / 4) (p1 @ p2) c)"
  shows "big_volume_loop msk vmin vmax cd dd i ps st = Inr st' \<Longrightarrow>
    \<forall>q \<in> ran (new_datadict3d st). J q \<Longrightarrow> \<forall>q \<in> ran (new_datadict3d st'). J q"
proof (induction ps arbitrary: i st)
  case Nil
  then show ?case by simp
next
  case (Cons kv ps)
  obtain k v where kv: "kv = (k, v)" by (cases kv)
  from big_volume_loop_Cons_ok [OF Cons.prems(1) [unfolded kv]] obtain nd nc samps where
    m: "merge_pairs msk vmin vmax cd dd v (new_datadict3d st, new_comdict3d st, []) =
          Inr (nd, nc, samps)"
    and l: "big_volume_loop msk vmin vmax cd dd (Suc i) ps
              \<lparr>new_datadict3d = nd, new_comdict3d = nc,
               new_partition = (new_partition st)(partition_names ! i \<mapsto> samps),
               samples_acc = samples_acc st @ samps\<rparr> = Inr st'" by blast
  from merge_pairs_ran [of dd J msk vmin vmax, OF J m Cons.prems(2)]
  have "\<forall>q \<in> ran nd. J q" .
  then have "\<forall>q \<in> ran (new_datadict3d \<lparr>new_datadict3d = nd, new_comdict3d = nc,
               new_partition = (new_partition st)(partition_names ! i \<mapsto> samps),
               samples_acc = samples_acc st @ samps\<rparr>). J q" by simp
  from Cons.IH [OF l this] show ?case .
qed

lemma social_big_volume_ran:
  assumes run: "social_big_volume msk vmin vmax n pairs cd dd = Inr out"
    and q: "q \<in> ran (bv_datadict_3d out)"
  shows "\<exists>p1 \<in> ran dd. \<exists>p2 \<in> ran dd. \<exists>c.
           q = msk (vmin - (vmax - vmin) / 2 / 2) (vmax + (vmax - vmin) / 2 / 2) (p1 @ p2) c"
proof -
  define J where "J = (\<lambda>q. \<exists>p1 \<in> ran dd. \<exists>p2 \<in> ran dd. \<exists>c.
           q = msk (vmin - (vmax - vmin) / 4) (vmax + (vmax - vmin) / 4) (p1 @ p2) c)"
  have J: "\<And>p1 p2 c. p1 \<in> ran dd \<Longrightarrow> p2 \<in> ran dd \<Longrightarrow>
      J (msk (vmin - (vmax - vmin) / 4) (vmax + (vmax - vmin) / 4) (p1 @ p2) c)"
    unfolding J_def by blast
  from run obtain ps where ps: "pairs = Some ps"
    by (cases pairs) (simp_all add: social_big_volume_def)
  from social_big_volume_ok [OF run [unfolded ps]] obtain st where
    loop: "big_volume_loop msk vmin vmax cd dd 0 ps
                 \<lparr>new_datadict3d = Map.empty, new_comdict3d = Map.empty,
                  new_partition = Map.empty, samples_acc = []\<rparr> = Inr st"
    and out: "bv_datadict_3d out = new_datadict3d st" by blast
  have "\<forall>q \<in> ran (new_datadict3d \<lparr>new_datadict3d = Map.empty, new_comdict3d = Map.empty,
                  new_partition = Map.empty, samples_acc = []\<rparr>). J q" by simp
  from big_volume_loop_ran [of dd J msk vmin vmax, OF J loop this] q
  have "J q" unfolding out by blast
  then show ?thesis unfolding J_def by simp
qed

lemma pose_ok_append:
  "pose_ok (p1 @ p2) \<longleftrightarrow> fully_valid p1 \<and> fully_valid p2 \<or> isnan_all p1 \<and> isnan_all p2"
  by (simp add: pose_ok_def fully_valid_def isnan_all_def)

lemma example_mixed_run:
  "social_big_volume msk (- 60) 60 23 (Some example_mixed_pairs) example_com3d
     example_mixed_pose3d = Inr (example_mixed_out msk)"
  by (simp add: social_big_volume_def example_mixed_pairs_def example_com3d_def
      example_mixed_pose3d_def com_dist_def partition_names_def Let_def example_mixed_out_def)

lemma example_pair_store:
  "convert_pair_poses True example_pair_array example_pair_array 0 [1] Map.empty =
     Inr [''0_1'' \<mapsto> example_r7m_pose, ''1_1'' \<mapsto> example_r7m_pose]"
proof -
  have a: "pair_to_r7m (nan_pose 12) = Inr (nan_pose 20)"
    by (simp add: pair_to_r7m_def pair_index_def nan_pose_def eval_nat_numeral)
  have b: "pair_to_r7m example_pair_pose = Inr example_r7m_pose"
    unfolding example_pair_pose_def example_r7m_pose_def by (rule pair_to_r7m_twelve)
  have c: "convert_pair_array True example_pair_array = Inr [nan_pose 20, example_r7m_pose]"
    by (simp add: example_pair_array_def convert_pair_pose_def a b)
  have i0: "sample_id 0 1 = ''0_1''" and i1: "sample_id (Suc 0) 1 = ''1_1''"
    by (simp_all add: sample_id_def str_int_def str_nat.simps digit_char_def)
  have n: "np_index [nan_pose 20, example_r7m_pose] 1 = Inr example_r7m_pose"
    by (simp add: np_index_def)
  show ?thesis
    unfolding convert_pair_poses_def c by (simp add: n i0 i1)
qed

lemma example_pair_store_plain:
  "convert_pair_poses False example_pair_array example_pair_array 0 [1] Map.empty =
     Inr [''0_1'' \<mapsto> example_pair_pose, ''1_1'' \<mapsto> example_pair_pose]"
proof -
  have i0: "sample_id 0 1 = ''0_1''" and i1: "sample_id (Suc 0) 1 = ''1_1''"
    by (simp_all add: sample_id_def str_int_def str_nat.simps digit_char_def)
  have n: "np_index example_pair_array 1 = Inr example_pair_pose"
    by (simp add: np_index_def example_pair_array_def)
  show ?thesis
    unfolding convert_pair_poses_def convert_pair_array_False by (simp add: n i0 i1)
qed

lemma example_rows_store:
  "store_rows 0 example_rows 0 [5, 6] Map.empty =
     Inr [''0_5'' \<mapsto> [(Num 1, Num 2, Num 3)], ''0_6'' \<mapsto> [(NaN, NaN, NaN)]]"
proof -
  have i: "sample_id 0 5 = ''0_5''" "sample_id 0 6 = ''0_6''"
    by (simp_all add: sample_id_def str_int_def str_nat.simps digit_char_def)
  show ?thesis by (simp add: example_rows_def i)
qed

text \<open>
  C6, as stated, fails in two places, both by design. With \<^verbatim>\<open>merge_pair\<close> a fully valid
  pose of 12 keypoints is stored as a pose of 20 keypoints of which 8 are NaN, neither
  fully valid nor unset. And the big-volume block joins the poses of the two instances of
  a pair: when one is labeled and the other unset, the pose it hands to the mask, and
  stores if the mask keeps the coordinates inside the volume, is neither.
\<close>

theorem pair_pose_mixed_counterexample:
  "fully_valid example_pair_pose \<and>
   convert_pair_pose True example_pair_pose = Inr example_r7m_pose \<and>
   \<not> fully_valid example_r7m_pose \<and> \<not> isnan_all example_r7m_pose \<and>
   \<not> pose_ok example_r7m_pose \<and>
   convert_pair_poses True example_pair_array example_pair_array 0 [1] Map.empty =
     Inr [''0_1'' \<mapsto> example_r7m_pose, ''1_1'' \<mapsto> example_r7m_pose] \<and>
   example_mixed_pose3d ''0_5'' = Some [(Num 1, Num 1, Num 1)] \<and>
   example_mixed_pose3d ''1_5'' = Some [(NaN, NaN, NaN)] \<and>
   fully_valid [(Num 1, Num 1, Num 1)] \<and> isnan_all [(NaN, NaN, NaN)] \<and>
   (\<forall>msk. social_big_volume msk (- 60) 60 23 (Some example_mixed_pairs) example_com3d
      example_mixed_pose3d = Inr (example_mixed_out msk)) \<and>
   (\<forall>msk. bv_datadict_3d (example_mixed_out msk) ''0_5'' =
      Some (msk (- 90) 90 [(Num 1, Num 1, Num 1), (NaN, NaN, NaN)] (Num (3 / 2), Num 2, Num 0))) \<and>
   bv_datadict_3d (example_mixed_out keep_all) ''0_5'' =
     Some [(Num 1, Num 1, Num 1), (NaN, NaN, NaN)] \<and>
   \<not> pose_ok [(Num 1, Num 1, Num 1), (NaN, NaN, NaN)]"
proof -
  have a: "fully_valid example_pair_pose"
    by (simp add: fully_valid_def example_pair_pose_def)
  have b: "convert_pair_pose True example_pair_pose = Inr example_r7m_pose"
    unfolding convert_pair_pose_def example_pair_pose_def example_r7m_pose_def
    by (simp only: pair_to_r7m_twelve if_True)
  have c: "\<not> fully_valid example_r7m_pose"
    by (simp add: fully_valid_def example_r7m_pose_def)
  have d: "\<not> isnan_all example_r7m_pose"
    by (simp add: isnan_all_def example_r7m_pose_def)
  from c d have e: "\<not> pose_ok example_r7m_pose"
    by (simp add: pose_ok_def)
  have f: "example_mixed_pose3d ''0_5'' = Some [(Num 1, Num 1, Num 1)]"
    "example_mixed_pose3d ''1_5'' = Some [(NaN, NaN, NaN)]"
    by (simp_all add: example_mixed_pose3d_def)
  have g: "fully_valid [(Num 1, Num 1, Num 1)]" "isnan_all [(NaN, NaN, NaN)]"
    by (simp_all add: fully_valid_def isnan_all_def)
  have h: "\<forall>msk. social_big_volume msk (- 60) 60 23 (Some example_mixed_pairs) example_com3d
      example_mixed_pose3d = Inr (example_mixed_out msk)"
    using example_mixed_run by blast
  have i: "\<forall>msk. bv_datadict_3d (example_mixed_out msk) ''0_5'' =
      Some (msk (- 90) 90 [(Num 1, Num 1, Num 1), (NaN, NaN, NaN)] (Num (3 / 2), Num 2, Num 0))"
    by (simp add: example_mixed_out_def)
  have j: "bv_datadict_3d (example_mixed_out keep_all) ''0_5'' =
     Some [(Num 1, Num 1, Num 1), (NaN, NaN, NaN)]"
    by (simp add: example_mixed_out_def keep_all_def)
  have k: "\<not> pose_ok [(Num 1, Num 1, Num 1), (NaN, NaN, NaN)]"
    by (simp add: pose_ok_def fully_valid_def isnan_all_def)
  from a b c d e example_pair_store f g h i j k show ?thesis by (intro conjI)
qed

text \<open>
  C6, amended: where the poses of the 3D-annotation mapping come from, operation by
  operation. The loader of RAT7M and, without \<^verbatim>\<open>merge_pair\<close>, the loader of the PAIR
  dataset store poses of their source arrays as they are, and COM augmentation stores
  poses the mapping already holds: after each of them every pose of the mapping is fully
  valid or unset if those before and those of the source are (the last three parts). With \<^verbatim>\<open>merge_pair\<close> every new
  pose is the padding of a source pose, which for a source of 12 keypoints has 20
  keypoints, the source's at the positions of \<open>pair_index\<close> and NaN at positions 10, 11 and
  14 to 19, and is fully valid or unset only if the source pose is entirely NaN. The
  big-volume block stores the mask of the join of two poses of the mapping, and the join
  is fully valid or unset exactly when the two poses are both fully valid or both unset.
\<close>

theorem pose3d_stored_forms:
  "(store_rows i data3d j drawn0 d0 = Inr d0' \<longrightarrow> ran d0' \<subseteq> ran d0 \<union> set data3d) \<and>
   (convert_pair_poses False pose3d1 pose3d2 count1 drawn1 d1 = Inr d1' \<longrightarrow>
      ran d1' \<subseteq> ran d1 \<union> set pose3d1 \<union> set pose3d2) \<and>
   (convert_pair_poses True pose3d3 pose3d4 count2 drawn2 d2 = Inr d2' \<longrightarrow>
      (\<forall>q \<in> ran d2'. q \<in> ran d2 \<or> (\<exists>p \<in> set pose3d3 \<union> set pose3d4. pair_to_r7m p = Inr q))) \<and>
   pair_to_r7m [k0, k1, k2, k3, k4, k5, k6, k7, k8, k9, k10, k11] =
     Inr [k0, k1, k2, k3, k4, k5, k6, k7, k8, k9, (NaN, NaN, NaN), (NaN, NaN, NaN), k10, k11,
          (NaN, NaN, NaN), (NaN, NaN, NaN), (NaN, NaN, NaN), (NaN, NaN, NaN), (NaN, NaN, NaN),
          (NaN, NaN, NaN)] \<and>
   (pose_ok [k0, k1, k2, k3, k4, k5, k6, k7, k8, k9, (NaN, NaN, NaN), (NaN, NaN, NaN), k10, k11,
          (NaN, NaN, NaN), (NaN, NaN, NaN), (NaN, NaN, NaN), (NaN, NaN, NaN), (NaN, NaN, NaN),
          (NaN, NaN, NaN)] \<longleftrightarrow>
    isnan_all [k0, k1, k2, k3, k4, k5, k6, k7, k8, k9, k10, k11]) \<and>
   (sample_COM_augmentation rd rnd datadict datadict_3d com3d_dict train valid r m = Inr out \<longrightarrow>
      ran (ao_datadict_3d out) \<subseteq> ran datadict_3d) \<and>
   (social_big_volume msk vmin vmax n pairs com3d_dict' datadict_3d' = Inr bv \<longrightarrow>
      (\<forall>q \<in> ran (bv_datadict_3d bv). \<exists>p1 \<in> ran datadict_3d'. \<exists>p2 \<in> ran datadict_3d'. \<exists>c.
         q = msk (vmin - (vmax - vmin) / 2 / 2) (vmax + (vmax - vmin) / 2 / 2) (p1 @ p2) c)) \<and>
   (pose_ok (p1 @ p2) \<longleftrightarrow> fully_valid p1 \<and> fully_valid p2 \<or> isnan_all p1 \<and> isnan_all p2) \<and>
   (store_rows i data3d j drawn0 d0 = Inr d0' \<and> (\<forall>q \<in> ran d0. pose_ok q) \<and>
      (\<forall>q \<in> set data3d. pose_ok q) \<longrightarrow> (\<forall>q \<in> ran d0'. pose_ok q)) \<and>
   (convert_pair_poses False pose3d1 pose3d2 count1 drawn1 d1 = Inr d1' \<and>
      (\<forall>q \<in> ran d1. pose_ok q) \<and> (\<forall>q \<in> set pose3d1 \<union> set pose3d2. pose_ok q) \<longrightarrow>
      (\<forall>q \<in> ran d1'. pose_ok q)) \<and>
   (sample_COM_augmentation rd rnd datadict datadict_3d com3d_dict train valid r m = Inr out \<and>
      (\<forall>q \<in> ran datadict_3d. pose_ok q) \<longrightarrow> (\<forall>q \<in> ran (ao_datadict_3d out). pose_ok q))"
proof -
  have c1: "store_rows i data3d j drawn0 d0 = Inr d0' \<longrightarrow> ran d0' \<subseteq> ran d0 \<union> set data3d"
    using store_rows_ran by blast
  have c2: "convert_pair_poses False pose3d1 pose3d2 count1 drawn1 d1 = Inr d1' \<longrightarrow>
      ran d1' \<subseteq> ran d1 \<union> set pose3d1 \<union> set pose3d2"
  proof
    assume "convert_pair_poses False pose3d1 pose3d2 count1 drawn1 d1 = Inr d1'"
    from convert_pair_poses_ran [OF this]
    show "ran d1' \<subseteq> ran d1 \<union> set pose3d1 \<union> set pose3d2"
      unfolding convert_pair_array_False by simp
  qed
  have c3: "convert_pair_poses True pose3d3 pose3d4 count2 drawn2 d2 = Inr d2' \<longrightarrow>
      (\<forall>q \<in> ran d2'. q \<in> ran d2 \<or> (\<exists>p \<in> set pose3d3 \<union> set pose3d4. pair_to_r7m p = Inr q))"
  proof (intro impI ballI)
    fix q
    assume run: "convert_pair_poses True pose3d3 pose3d4 count2 drawn2 d2 = Inr d2'"
      and q: "q \<in> ran d2'"
    from convert_pair_poses_ran [OF run] obtain a1 a2 where
      a1: "convert_pair_array True pose3d3 = Inr a1"
      and a2: "convert_pair_array True pose3d4 = Inr a2"
      and sub: "ran d2' \<subseteq> ran d2 \<union> set a1 \<union> set a2" by blast
    from q sub consider "q \<in> ran d2" | "q \<in> set a1" | "q \<in> set a2" by blast
    then show "q \<in> ran d2 \<or> (\<exists>p \<in> set pose3d3 \<union> set pose3d4. pair_to_r7m p = Inr q)"
    proof cases
      case 1
      then show ?thesis by simp
    next
      case 2
      with convert_pair_array_True [OF a1] show ?thesis by blast
    next
      case 3
      with convert_pair_array_True [OF a2] show ?thesis by blast
    qed
  qed
  have c4: "pair_to_r7m [k0, k1, k2, k3, k4, k5, k6, k7, k8, k9, k10, k11] =
     Inr [k0, k1, k2, k3, k4, k5, k6, k7, k8, k9, (NaN, NaN, NaN), (NaN, NaN, NaN), k10, k11,
          (NaN, NaN, NaN), (NaN, NaN, NaN), (NaN, NaN, NaN), (NaN, NaN, NaN), (NaN, NaN, NaN),
          (NaN, NaN, NaN)]"
    by (rule pair_to_r7m_twelve)
  have c5: "pose_ok [k0, k1, k2, k3, k4, k5, k6, k7, k8, k9, (NaN, NaN, NaN), (NaN, NaN, NaN), k10,
          k11, (NaN, NaN, NaN), (NaN, NaN, NaN), (NaN, NaN, NaN), (NaN, NaN, NaN), (NaN, NaN, NaN),
          (NaN, NaN, NaN)] \<longleftrightarrow>
    isnan_all [k0, k1, k2, k3, k4, k5, k6, k7, k8, k9, k10, k11]"
    by (simp add: pose_ok_def fully_valid_def isnan_all_def)
  have c6: "sample_COM_augmentation rd rnd datadict datadict_3d com3d_dict train valid r m =
      Inr out \<longrightarrow> ran (ao_datadict_3d out) \<subseteq> ran datadict_3d"
    using sample_COM_augmentation_ran by blast
  have c7: "social_big_volume msk vmin vmax n pairs com3d_dict' datadict_3d' = Inr bv \<longrightarrow>
      (\<forall>q \<in> ran (bv_datadict_3d bv). \<exists>p1 \<in> ran datadict_3d'. \<exists>p2 \<in> ran datadict_3d'. \<exists>c.
         q = msk (vmin - (vmax - vmin) / 2 / 2) (vmax + (vmax - vmin) / 2 / 2) (p1 @ p2) c)"
    using social_big_volume_ran by blast
  have c8: "pose_ok (p1 @ p2) \<longleftrightarrow> fully_valid p1 \<and> fully_valid p2 \<or> isnan_all p1 \<and> isnan_all p2"
    by (rule pose_ok_append)
  have c9: "store_rows i data3d j drawn0 d0 = Inr d0' \<and> (\<forall>q \<in> ran d0. pose_ok q) \<and>
      (\<forall>q \<in> set data3d. pose_ok q) \<longrightarrow> (\<forall>q \<in> ran d0'. pose_ok q)"
    using c1 by blast
  have c10: "convert_pair_poses False pose3d1 pose3d2 count1 drawn1 d1 = Inr d1' \<and>
      (\<forall>q \<in> ran d1. pose_ok q) \<and> (\<forall>q \<in> set pose3d1 \<union> set pose3d2. pose_ok q) \<longrightarrow>
      (\<forall>q \<in> ran d1'. pose_ok q)"
    using c2 by blast
  have c11: "sample_COM_augmentation rd rnd datadict datadict_3d com3d_dict train valid r m =
      Inr out \<and> (\<forall>q \<in> ran datadict_3d. pose_ok q) \<longrightarrow>
      (\<forall>q \<in> ran (ao_datadict_3d out). pose_ok q)"
    using c6 by blast
  from c1 c2 c3 c4 c5 c6 c7 c8 c9 c10 c11 show ?thesis by (intro conjI)
qed

theorem pose3d_stored_forms_witness:
  "store_rows 0 example_rows 0 [5, 6] Map.empty =
     Inr [''0_5'' \<mapsto> [(Num 1, Num 2, Num 3)], ''0_6'' \<mapsto> [(NaN, NaN, NaN)]] \<and>
   ran [''0_5'' \<mapsto> [(Num 1, Num 2, Num 3)], ''0_6'' \<mapsto> [(NaN, NaN, NaN)]] \<subseteq>
     ran (Map.empty :: string \<rightharpoonup> pose) \<union> set example_rows \<and>
   convert_pair_poses False example_pair_array example_pair_array 0 [1] Map.empty =
     Inr [''0_1'' \<mapsto> example_pair_pose, ''1_1'' \<mapsto> example_pair_pose] \<and>
   ran [''0_1'' \<mapsto> example_pair_pose, ''1_1'' \<mapsto> example_pair_pose] \<subseteq>
     ran (Map.empty :: string \<rightharpoonup> pose) \<union> set example_pair_array \<union> set example_pair_array \<and>
   convert_pair_poses True example_pair_array example_pair_array 0 [1] Map.empty =
     Inr [''0_1'' \<mapsto> example_r7m_pose, ''1_1'' \<mapsto> example_r7m_pose] \<and>
   example_r7m_pose \<in> ran [''0_1'' \<mapsto> example_r7m_pose, ''1_1'' \<mapsto> example_r7m_pose] \<and>
   (\<exists>p \<in> set example_pair_array \<union> set example_pair_array.
      pair_to_r7m p = Inr example_r7m_pose) \<and>
   sample_COM_augmentation rd64 example_rnd example_aug_datadict example_aug_pose3d
     example_aug_com3d [''0_5'', ''0_6''] [''0_9''] 20 2 = Inr example_aug_out \<and>
   ran (ao_datadict_3d example_aug_out) \<subseteq> ran example_aug_pose3d \<and>
   social_big_volume keep_all (- 60) 60 23 (Some example_pairs) example_com3d example_pose3d =
     Inr example_out \<and>
   bv_datadict_3d example_out ''0_5'' = Some [(Num 1, Num 1, Num 1), (Num 2, Num 5, Num 1)] \<and>
   (\<exists>p1 \<in> ran example_pose3d. \<exists>p2 \<in> ran example_pose3d. \<exists>c.
      [(Num 1, Num 1, Num 1), (Num 2, Num 5, Num 1)] =
        keep_all (- 60 - (60 - - 60) / 2 / 2) (60 + (60 - - 60) / 2 / 2) (p1 @ p2) c) \<and>
   pose_ok ([(Num 1, Num 1, Num 1)] @ [(Num 2, Num 5, Num 1)]) \<and>
   \<not> pose_ok ([(Num 1, Num 1, Num 1)] @ [(NaN, NaN, NaN)])"
proof -
  note t = pose3d_stored_forms
  have w1: "ran [''0_5'' \<mapsto> [(Num 1, Num 2, Num 3)], ''0_6'' \<mapsto> [(NaN, NaN, NaN)]] \<subseteq>
     ran (Map.empty :: string \<rightharpoonup> pose) \<union> set example_rows"
    by (rule mp [OF t [THEN conjunct1] example_rows_store])
  have w2: "ran [''0_1'' \<mapsto> example_pair_pose, ''1_1'' \<mapsto> example_pair_pose] \<subseteq>
     ran (Map.empty :: string \<rightharpoonup> pose) \<union> set example_pair_array \<union> set example_pair_array"
    by (rule mp [OF t [THEN conjunct2, THEN conjunct1] example_pair_store_plain])
  have m: "example_r7m_pose \<in> ran [''0_1'' \<mapsto> example_r7m_pose, ''1_1'' \<mapsto> example_r7m_pose]"
    by (rule ranI [of _ "''0_1''"]) simp
  have e: "example_r7m_pose \<notin> ran (Map.empty :: string \<rightharpoonup> pose)" by simp
  from mp [OF t [THEN conjunct2, THEN conjunct2, THEN conjunct1] example_pair_store] m
  have "example_r7m_pose \<in> ran (Map.empty :: string \<rightharpoonup> pose) \<or>
      (\<exists>p \<in> set example_pair_array \<union> set example_pair_array.
         pair_to_r7m p = Inr example_r7m_pose)"
    by (rule bspec)
  with e have w3: "\<exists>p \<in> set example_pair_array \<union> set example_pair_array.
      pair_to_r7m p = Inr example_r7m_pose"
    by blast
  have w6: "ran (ao_datadict_3d example_aug_out) \<subseteq> ran example_aug_pose3d"
    by (rule mp [OF t [THEN conjunct2, THEN conjunct2, THEN conjunct2, THEN conjunct2,
        THEN conjunct2, THEN conjunct1] example_aug_run])
  have l: "bv_datadict_3d example_out ''0_5'' =
      Some [(Num 1, Num 1, Num 1), (Num 2, Num 5, Num 1)]"
    by (simp add: example_out_def)
  have lr: "[(Num 1, Num 1, Num 1), (Num 2, Num 5, Num 1)] \<in> ran (bv_datadict_3d example_out)"
    using l by (rule ranI [of "bv_datadict_3d example_out" "''0_5''"])
  from mp [OF t [THEN conjunct2, THEN conjunct2, THEN conjunct2, THEN conjunct2,
        THEN conjunct2, THEN conjunct2, THEN conjunct1] example_run] lr
  have w7: "\<exists>p1 \<in> ran example_pose3d. \<exists>p2 \<in> ran example_pose3d. \<exists>c.
      [(Num 1, Num 1, Num 1), (Num 2, Num 5, Num 1)] =
        keep_all (- 60 - (60 - - 60) / 2 / 2) (60 + (60 - - 60) / 2 / 2) (p1 @ p2) c"
    by (rule bspec)
  have v: "fully_valid [(Num 1, Num 1, Num 1)]" "fully_valid [(Num 2, Num 5, Num 1)]"
    "\<not> fully_valid [(NaN, NaN, NaN)]" "\<not> isnan_all [(Num 1, Num 1, Num 1)]"
    by (simp_all add: fully_valid_def isnan_all_def)
  from t [THEN conjunct2, THEN conjunct2, THEN conjunct2, THEN conjunct2,
        THEN conjunct2, THEN conjunct2, THEN conjunct2, THEN conjunct1,
        of "[(Num 1, Num 1, Num 1)]" "[(Num 2, Num 5, Num 1)]"] v
  have w8: "pose_ok ([(Num 1, Num 1, Num 1)] @ [(Num 2, Num 5, Num 1)])" by blast
  from t [THEN conjunct2, THEN conjunct2, THEN conjunct2, THEN conjunct2,
        THEN conjunct2, THEN conjunct2, THEN conjunct2, THEN conjunct1,
        of "[(Num 1, Num 1, Num 1)]" "[(NaN, NaN, NaN)]"] v
  have w9: "\<not> pose_ok ([(Num 1, Num 1, Num 1)] @ [(NaN, NaN, NaN)])" by blast
  from example_rows_store w1 example_pair_store_plain w2 example_pair_store m w3
    example_aug_run w6 example_run l w7 w8 w9
  show ?thesis by (intro conjI)
qed

end
